theory Spec2Isabelle
  imports Main "HOL-Library.AList"
begin

text \<open>
  A model of \<open>backend/server.py\<close>, the repository analyzer: framework detection
  (\<open>detect_framework\<close>), entry points (\<open>find_entry_points\<close>), import extraction
  (\<open>parse_imports_python\<close>, \<open>parse_imports_js\<close>), the tree walk
  (\<open>analyze_file_structure\<close>), the insight request (\<open>get_ai_insights\<close>) and the request
  handler (\<open>analyze_repository\<close>). Every function keeps the name it has in the source
  and follows it line by line; the file system, the Python libraries and the services
  outside the process are explicit arguments. The line numbers in the comments are those
  of the source file.
\<close>

section \<open>Python strings\<close>

text \<open>
  A Python \<open>str\<close> is modelled as a HOL \<open>string\<close>, one \<open>char\<close> per character.
  The operations below are the ones \<open>backend/server.py\<close> applies to strings.
\<close>

definition startswith :: "'a list \<Rightarrow> 'a list \<Rightarrow> bool" where
  \<comment> \<open>\<open>s.startswith(p)\<close>\<close>
  "startswith s p = (take (length p) s = p)"

definition endswith :: "'a list \<Rightarrow> 'a list \<Rightarrow> bool" where
  \<comment> \<open>\<open>s.endswith(p)\<close>\<close>
  "endswith s p = (length p \<le> length s \<and> drop (length s - length p) s = p)"

fun sub_in :: "'a list \<Rightarrow> 'a list \<Rightarrow> bool" where
  \<comment> \<open>\<open>needle in s\<close> for two strings: \<open>needle\<close> occurs in \<open>s\<close> as a contiguous run\<close>
  "sub_in needle [] = (needle = [])"
| "sub_in needle (c # cs) = (startswith (c # cs) needle \<or> sub_in needle cs)"

definition lower_char :: "char \<Rightarrow> char" where
  "lower_char c =
     (case map_of (zip ''ABCDEFGHIJKLMNOPQRSTUVWXYZ'' ''abcdefghijklmnopqrstuvwxyz'') c of
        None \<Rightarrow> c
      | Some l \<Rightarrow> l)"

definition lower :: "string \<Rightarrow> string" where
  \<comment> \<open>\<open>s.lower()\<close>: the letters A to Z become a to z. Every other character is returned
      as it is, which for the ASCII needles searched by the program gives the answers of
      Python's \<open>lower\<close> on 8-bit text.\<close>
  "lower s = map lower_char s"

fun join :: "'a list \<Rightarrow> 'a list list \<Rightarrow> 'a list" where
  \<comment> \<open>\<open>sep.join(xs)\<close>\<close>
  "join sep [] = []"
| "join sep [x] = x"
| "join sep (x # y # ys) = x @ sep @ join sep (y # ys)"

definition rstrip :: "char \<Rightarrow> string \<Rightarrow> string" where
  \<comment> \<open>\<open>s.rstrip(c)\<close> for a single character \<open>c\<close>\<close>
  "rstrip c s = rev (dropWhile (\<lambda>x. x = c) (rev s))"

definition last_segment :: "char \<Rightarrow> string \<Rightarrow> string" where
  \<comment> \<open>\<open>s.split(c)[-1]\<close>: what follows the last \<open>c\<close> (all of \<open>s\<close> when there is none);
      \<open>split\<close> never returns an empty list, so the index cannot fail\<close>
  "last_segment c s = rev (takeWhile (\<lambda>x. x \<noteq> c) (rev s))"

function remove_all :: "string \<Rightarrow> string \<Rightarrow> string" where
  \<comment> \<open>\<open>s.replace(old, '')\<close> for a non-empty \<open>old\<close>: occurrences are removed left to
      right, without overlap\<close>
  "remove_all old s =
     (if old = [] then s
      else if s = [] then []
      else if startswith s old then remove_all old (drop (length old) s)
      else hd s # remove_all old (tl s))"
  by pat_completeness auto
termination
  by (relation "measure (\<lambda>(old, s). length s)") auto

definition digit_char :: "nat \<Rightarrow> char" where
  \<comment> \<open>the index is below ten, so it is always inside the string\<close>
  "digit_char n = ''0123456789'' ! (n mod 10)"

function show_nat :: "nat \<Rightarrow> string" where
  \<comment> \<open>\<open>str(n)\<close> for a non-negative integer\<close>
  "show_nat n = (if n < 10 then [digit_char n] else show_nat (n div 10) @ [digit_char n])"
  by pat_completeness auto
termination
  by (relation "measure id") auto

section \<open>JSON values and the Python operations applied to them\<close>

text \<open>
  What \<open>json.load\<close> returns: \<open>None\<close>, a bool, an int, a float (kept as its bit pattern,
  the program never computes with it), a str, a list or a dict. A dict is a map from
  keys to values.
\<close>

datatype json =
    JNull
  | JBool bool
  | JInt int
  | JFloat nat
  | JStr string
  | JArr "json list"
  | JObj "string \<Rightarrow> json option"

text \<open>
  The operations return \<open>None\<close> where Python raises (\<open>AttributeError\<close>, \<open>TypeError\<close>,
  \<open>KeyError\<close>); every caller sits inside a \<open>try\<close> whose handler ignores which one it was.
\<close>

fun py_get :: "json \<Rightarrow> string \<Rightarrow> json \<Rightarrow> json option" where
  \<comment> \<open>\<open>data.get(key, default)\<close>: only a dict has \<open>get\<close>\<close>
  "py_get (JObj m) k d = Some (case m k of None \<Rightarrow> d | Some v \<Rightarrow> v)"
| "py_get _ k d = None"

fun as_mapping :: "json \<Rightarrow> (string \<Rightarrow> json option) option" where
  \<comment> \<open>the operand of \<open>**\<close> in a dict display must be a mapping\<close>
  "as_mapping (JObj m) = Some m"
| "as_mapping _ = None"

fun is_str :: "string \<Rightarrow> json \<Rightarrow> bool" where
  \<comment> \<open>\<open>k == v\<close> for a str \<open>k\<close>\<close>
  "is_str k (JStr s) = (s = k)"
| "is_str k _ = False"

fun py_contains :: "string \<Rightarrow> json \<Rightarrow> bool option" where
  \<comment> \<open>\<open>k in v\<close> for a str \<open>k\<close>: key of a dict, substring of a str, element of a list\<close>
  "py_contains k (JObj m) = Some (m k \<noteq> None)"
| "py_contains k (JStr s) = Some (sub_in k s)"
| "py_contains k (JArr xs) = Some (list_ex (is_str k) xs)"
| "py_contains k _ = None"

fun py_getitem :: "json \<Rightarrow> string \<Rightarrow> json option" where
  \<comment> \<open>\<open>v[k]\<close> for a str \<open>k\<close>: a dict with that key answers, everything else raises\<close>
  "py_getitem (JObj m) k = m k"
| "py_getitem _ k = None"

section \<open>Python syntax trees\<close>

text \<open>
  The tree \<open>ast.parse\<close> returns, as far as \<open>parse_imports_python\<close> looks at it:
  \<open>import a, b\<close> is an \<open>Import\<close> node with its aliases, \<open>from m import a\<close> an
  \<open>ImportFrom\<close> node with the module (absent for \<open>from . import a\<close>), its aliases and its
  level; every other kind of node is \<open>Other\<close> with its child nodes in the order of
  \<open>ast.iter_child_nodes\<close>.
\<close>

record py_alias =
  alias_name :: string
  asname :: "string option"

datatype py_ast =
    Import "py_alias list"
  | ImportFrom "string option" "py_alias list" nat
  | AliasNode py_alias
  | Other "py_ast list"

fun iter_child_nodes :: "py_ast \<Rightarrow> py_ast list" where
  "iter_child_nodes (Import names) = map AliasNode names"
| "iter_child_nodes (ImportFrom m names lvl) = map AliasNode names"
| "iter_child_nodes (AliasNode a) = []"
| "iter_child_nodes (Other cs) = cs"

fun nodes :: "py_ast \<Rightarrow> py_ast list" where
  \<comment> \<open>every node of a tree, the tree itself first\<close>
  "nodes (Import names) = Import names # map AliasNode names"
| "nodes (ImportFrom m names lvl) = ImportFrom m names lvl # map AliasNode names"
| "nodes (AliasNode a) = [AliasNode a]"
| "nodes (Other cs) = Other cs # concat (map nodes cs)"

definition weight :: "py_ast list \<Rightarrow> nat" where
  "weight q = sum_list (map (\<lambda>t. length (nodes t)) q)"

lemma weight_children: "weight (iter_child_nodes t) < length (nodes t)"
proof (cases t)
  case (Other cs)
  then show ?thesis by (simp add: weight_def length_concat comp_def)
qed (simp_all add: weight_def comp_def sum_list_triv)

function walk_queue :: "py_ast list \<Rightarrow> py_ast list" where
  \<comment> \<open>\<open>ast.walk\<close>: a queue (\<open>deque\<close>) of nodes; the first is taken out and yielded, its
      children are appended at the end\<close>
  "walk_queue [] = []"
| "walk_queue (t # q) = t # walk_queue (q @ iter_child_nodes t)"
  by pat_completeness auto
termination
proof (relation "measure weight")
  show "wf (measure weight)" by simp
next
  fix t q
  have "weight (q @ iter_child_nodes t) = weight q + weight (iter_child_nodes t)"
    by (simp add: weight_def)
  moreover have "weight (t # q) = length (nodes t) + weight q"
    by (simp add: weight_def)
  ultimately show "(q @ iter_child_nodes t, t # q) \<in> measure weight"
    using weight_children [of t] by simp
qed

definition ast_walk :: "py_ast \<Rightarrow> py_ast list" where
  "ast_walk t = walk_queue [t]"

section \<open>The file system\<close>

text \<open>
  A regular file as the program can observe it: its size as \<open>stat\<close> reports it, and what
  \<open>open(...).read()\<close> returns with \<open>encoding='utf-8'\<close> and with the default encoding
  of the locale. \<open>None\<close> stands for the call raising (\<open>OSError\<close>, \<open>UnicodeDecodeError\<close>).
  A directory lists its entries in the order \<open>scandir\<close> gives them. Symbolic links are left
  out of the model.
\<close>

record file_data =
  fsize :: "nat option"
  utf8_text :: "string option"
  locale_text :: "string option"

datatype fsnode = File file_data | Dir "(string \<times> fsnode) list"

type_synonym path = "string list"

text \<open>
  The argument \<open>repo_path\<close> of the helper functions: the parts of the path itself
  (\<open>Path.parts\<close>, for \<open>/tmp/tmpab12\<close> they are \<open>/\<close>, \<open>tmp\<close>, \<open>tmpab12\<close>) and what is on disk there.
\<close>

record workspace =
  root :: path
  tree :: fsnode

fun lookup :: "fsnode \<Rightarrow> path \<Rightarrow> fsnode option"
  and lookup_entry :: "(string \<times> fsnode) list \<Rightarrow> string \<Rightarrow> path \<Rightarrow> fsnode option" where
  "lookup n [] = Some n"
| "lookup (File f) (s # p) = None"
| "lookup (Dir es) (s # p) = lookup_entry es s p"
| "lookup_entry [] s p = None"
| "lookup_entry ((n, c) # es) s p = (if n = s then lookup c p else lookup_entry es s p)"

definition exists :: "workspace \<Rightarrow> path \<Rightarrow> bool" where
  \<comment> \<open>\<open>(repo_path / a / b).exists()\<close>: a file or a directory is there\<close>
  "exists ws rel = (lookup (tree ws) rel \<noteq> None)"

definition read_utf8 :: "workspace \<Rightarrow> path \<Rightarrow> string option" where
  \<comment> \<open>\<open>open(p, 'r', encoding='utf-8')\<close> then \<open>read()\<close>; opening a directory or a missing
      path raises\<close>
  "read_utf8 ws rel = (case lookup (tree ws) rel of Some (File f) \<Rightarrow> utf8_text f | _ \<Rightarrow> None)"

definition read_default :: "workspace \<Rightarrow> path \<Rightarrow> string option" where
  \<comment> \<open>\<open>open(p, 'r')\<close> then \<open>read()\<close>\<close>
  "read_default ws rel =
     (case lookup (tree ws) rel of Some (File f) \<Rightarrow> locale_text f | _ \<Rightarrow> None)"

fun iterate_directories :: "path \<Rightarrow> fsnode \<Rightarrow> (path \<times> (string \<times> fsnode) list) list"
  and iterate_entries :: "path \<Rightarrow> (string \<times> fsnode) list \<Rightarrow> (path \<times> (string \<times> fsnode) list) list"
  where
  \<comment> \<open>the directories below a path, each before its subdirectories, with their entries\<close>
  "iterate_directories p (File f) = []"
| "iterate_directories p (Dir es) = (p, es) # iterate_entries p es"
| "iterate_entries p [] = []"
| "iterate_entries p ((n, c) # es) = iterate_directories (p @ [n]) c @ iterate_entries p es"

definition select_children ::
  "(string \<Rightarrow> bool) \<Rightarrow> path \<times> (string \<times> fsnode) list \<Rightarrow> (path \<times> fsnode) list" where
  "select_children m = (\<lambda>(d, es). map (\<lambda>(n, c). (d @ [n], c)) (filter (\<lambda>(n, c). m n) es))"

definition rglob :: "(string \<Rightarrow> bool) \<Rightarrow> path \<Rightarrow> fsnode \<Rightarrow> (path \<times> fsnode) list" where
  \<comment> \<open>\<open>p.rglob(pattern)\<close>: directory by directory, the entries whose name matches; a path
      that is not a directory yields nothing\<close>
  "rglob m p t = concat (map (select_children m) (iterate_directories p t))"

definition glob_all :: "string \<Rightarrow> bool" where
  \<comment> \<open>the pattern \<open>*\<close>\<close>
  "glob_all name = True"

definition glob_js :: "string \<Rightarrow> bool" where
  \<comment> \<open>the pattern \<open>*.js*\<close>: the name holds \<open>.js\<close> somewhere\<close>
  "glob_js name = sub_in ''.js'' name"

definition path_name :: "path \<Rightarrow> string" where
  \<comment> \<open>\<open>Path.name\<close>: the last part\<close>
  "path_name p = (if p = [] then [] else last p)"

definition suffix :: "string \<Rightarrow> string" where
  \<comment> \<open>\<open>Path.suffix\<close> of a file name: with \<open>i = name.rfind('.')\<close>, \<open>name[i:]\<close> when
      \<open>0 < i < len(name) - 1\<close> and the empty string otherwise\<close>
  "suffix name =
     (let after = last_segment (CHR ''.'') name
      in if CHR ''.'' \<in> set name \<and> after \<noteq> [] \<and> length after + 1 < length name
         then CHR ''.'' # after else [])"

section \<open>The libraries the program calls\<close>

text \<open>
  Parsers and generators of the Python libraries are parameters of the model:
  \<open>json.load\<close> and \<open>ast.parse\<close> (\<open>None\<close> where they raise), \<open>re.findall\<close> (pattern first),
  \<open>str\<close> of a JSON value that is not a \<open>str\<close>, and the \<open>uuid4\<close> strings in the order they are
  drawn.
\<close>

record library =
  json_load :: "string \<Rightarrow> json option"
  ast_parse :: "string \<Rightarrow> py_ast option"
  re_findall :: "string \<Rightarrow> string \<Rightarrow> string list"
  py_str :: "json \<Rightarrow> string"
  uuid4 :: "nat \<Rightarrow> string"

section \<open>Framework detection\<close>

definition dependency_keys :: "library \<Rightarrow> workspace \<Rightarrow> (string \<Rightarrow> json option) option" where
  \<comment> \<open>lines 67 to 69: \<open>package.json\<close> is read and parsed, and the \<open>dependencies\<close> and
      \<open>devDependencies\<close> entries are merged into \<open>deps\<close>; \<open>None\<close> where any of it raises\<close>
  "dependency_keys lib ws =
     Option.bind (read_utf8 ws [''package.json'']) (\<lambda>txt.
     Option.bind (json_load lib txt) (\<lambda>data.
     Option.bind (py_get data ''dependencies'' (JObj Map.empty)) (\<lambda>a.
     Option.bind (as_mapping a) (\<lambda>d1.
     Option.bind (py_get data ''devDependencies'' (JObj Map.empty)) (\<lambda>b.
     Option.bind (as_mapping b) (\<lambda>d2. Some (d1 ++ d2)))))))"

definition package_frameworks :: "(string \<Rightarrow> json option) \<Rightarrow> string list" where
  \<comment> \<open>lines 71 to 88, on the merged \<open>deps\<close>\<close>
  "package_frameworks deps =
     (if ''next'' \<in> dom deps then [''Next.js'']
      else if ''react'' \<in> dom deps \<or> ''react-dom'' \<in> dom deps then [''React'']
      else []) @
     (if ''vue'' \<in> dom deps then [''Vue''] else []) @
     (if ''angular'' \<in> dom deps \<or> ''@angular/core'' \<in> dom deps then [''Angular''] else []) @
     (if ''svelte'' \<in> dom deps then [''Svelte''] else [])"

definition package_json_pass :: "library \<Rightarrow> workspace \<Rightarrow> string list" where
  \<comment> \<open>lines 63 to 90; the handler of line 89 leaves \<open>frameworks\<close> as it was, and nothing
      can raise once the first label has been appended\<close>
  "package_json_pass lib ws =
     (if exists ws [''package.json'']
      then (case dependency_keys lib ws of None \<Rightarrow> [] | Some deps \<Rightarrow> package_frameworks deps)
      else [])"

definition has_react_fingerprint :: "string \<Rightarrow> bool" where
  \<comment> \<open>line 100\<close>
  "has_react_fingerprint content =
     (sub_in ''react'' (lower content) \<or> sub_in ''import React'' content)"

fun sample_files :: "(path \<times> fsnode) list \<Rightarrow> string list" where
  \<comment> \<open>the loop of lines 96 to 104: a candidate that cannot be opened or read is passed
      over, the first one with a fingerprint in its leading 100 characters ends the loop\<close>
  "sample_files [] = []"
| "sample_files ((p, Dir es) # rest) = sample_files rest"
| "sample_files ((p, File f) # rest) =
     (case utf8_text f of
        None \<Rightarrow> sample_files rest
      | Some txt \<Rightarrow>
          if has_react_fingerprint (take 100 txt) then [''React''] else sample_files rest)"

definition sampling_pass :: "workspace \<Rightarrow> string list" where
  \<comment> \<open>lines 94 to 104, what the block appends when it runs\<close>
  "sampling_pass ws =
     (case lookup (tree ws) [''src''] of
        None \<Rightarrow> []
      | Some src_dir \<Rightarrow> sample_files (rglob glob_js [''src''] src_dir))"

definition requirements_pass :: "workspace \<Rightarrow> string list" where
  \<comment> \<open>lines 106 to 119\<close>
  "requirements_pass ws =
     (if exists ws [''requirements.txt'']
      then (case read_default ws [''requirements.txt''] of
              None \<Rightarrow> []
            | Some txt \<Rightarrow>
                (let content = lower txt
                 in (if sub_in ''django'' content then [''Django''] else []) @
                    (if sub_in ''flask'' content then [''Flask''] else []) @
                    (if sub_in ''fastapi'' content then [''FastAPI''] else [])))
      else [])"

definition marker_pass :: "workspace \<Rightarrow> string list" where
  \<comment> \<open>lines 121 to 129\<close>
  "marker_pass ws =
     (if exists ws [''go.mod''] then [''Go''] else []) @
     (if exists ws [''pom.xml''] then [''Java/Maven''] else []) @
     (if exists ws [''build.gradle''] then [''Java/Gradle''] else [])"

definition sampled :: "library \<Rightarrow> workspace \<Rightarrow> string list" where
  \<comment> \<open>line 93: the sampling block runs when \<open>frameworks\<close> is still empty after the
      \<open>package.json\<close> block\<close>
  "sampled lib ws = (if package_json_pass lib ws = [] then sampling_pass ws else [])"

definition detected :: "library \<Rightarrow> workspace \<Rightarrow> string list" where
  \<comment> \<open>the list \<open>frameworks\<close> at line 131\<close>
  "detected lib ws =
     package_json_pass lib ws @ sampled lib ws @ requirements_pass ws @ marker_pass ws"

definition detect_framework :: "library \<Rightarrow> workspace \<Rightarrow> string" where
  "detect_framework lib ws =
     (let frameworks = detected lib ws
      in if frameworks \<noteq> [] then join '', '' frameworks else ''Unknown'')"

definition manifest_signal :: "library \<Rightarrow> workspace \<Rightarrow> string list" where
  \<comment> \<open>what the manifest checks yield together: \<open>package.json\<close>, \<open>requirements.txt\<close>,
      \<open>go.mod\<close>, \<open>pom.xml\<close>, \<open>build.gradle\<close>\<close>
  "manifest_signal lib ws = package_json_pass lib ws @ requirements_pass ws @ marker_pass ws"

definition manifest_section ::
  "(string \<Rightarrow> json option) \<Rightarrow> string \<Rightarrow> (string \<Rightarrow> json option) option" where
  \<comment> \<open>an entry of the manifest that is absent (then empty) or an object\<close>
  "manifest_section data k = (case data k of None \<Rightarrow> Some Map.empty | Some v \<Rightarrow> as_mapping v)"

section \<open>Entry points\<close>

definition common_entries :: "string list" where
  "common_entries =
     [''index.js'', ''index.ts'', ''index.jsx'', ''index.tsx'',
      ''main.py'', ''app.py'', ''server.py'', ''manage.py'',
      ''main.go'', ''main.java'', ''Main.java'',
      ''index.html'', ''App.js'', ''App.tsx'']"

definition root_loop :: "workspace \<Rightarrow> string list \<Rightarrow> string list" where
  \<comment> \<open>lines 145 to 147\<close>
  "root_loop ws entry_points =
     foldl (\<lambda>eps entry. if exists ws [entry] then eps @ [entry] else eps)
       entry_points common_entries"

definition format_value :: "library \<Rightarrow> json \<Rightarrow> string" where
  \<comment> \<open>a value inside an f-string: a \<open>str\<close> as it is, anything else through \<open>str\<close>\<close>
  "format_value lib v = (case v of JStr s \<Rightarrow> s | _ \<Rightarrow> py_str lib v)"

definition script_step ::
  "library \<Rightarrow> json \<Rightarrow> string \<Rightarrow> string \<Rightarrow> string list \<Rightarrow> string list option" where
  \<comment> \<open>\<open>if name in scripts: entry_points.append(f"<label>{scripts[name]}")\<close>; \<open>None\<close> where
      it raises\<close>
  "script_step lib scripts name label eps =
     (case py_contains name scripts of
        None \<Rightarrow> None
      | Some False \<Rightarrow> Some eps
      | Some True \<Rightarrow>
          (case py_getitem scripts name of
             None \<Rightarrow> None
           | Some v \<Rightarrow> Some (eps @ [label @ format_value lib v])))"

definition scripts_block :: "library \<Rightarrow> workspace \<Rightarrow> string list \<Rightarrow> string list" where
  \<comment> \<open>lines 150 to 161: what was appended before an exception stays in the list\<close>
  "scripts_block lib ws eps =
     (if exists ws [''package.json'']
      then (case Option.bind (read_default ws [''package.json'']) (json_load lib) of
              None \<Rightarrow> eps
            | Some data \<Rightarrow>
                (case py_get data ''scripts'' (JObj Map.empty) of
                   None \<Rightarrow> eps
                 | Some scripts \<Rightarrow>
                     (case script_step lib scripts ''start'' ''npm start: '' eps of
                        None \<Rightarrow> eps
                      | Some eps1 \<Rightarrow>
                          (case script_step lib scripts ''dev'' ''npm run dev: '' eps1 of
                             None \<Rightarrow> eps1
                           | Some eps2 \<Rightarrow> eps2))))
      else eps)"

definition src_loop :: "workspace \<Rightarrow> string list \<Rightarrow> string list" where
  \<comment> \<open>lines 164 to 169\<close>
  "src_loop ws entry_points =
     (if exists ws [''src'']
      then foldl (\<lambda>eps entry.
                    if exists ws [''src'', entry] \<and> entry \<notin> set eps
                    then eps @ [''src/'' @ entry] else eps)
             entry_points common_entries
      else entry_points)"

definition find_entry_points :: "library \<Rightarrow> workspace \<Rightarrow> string list" where
  "find_entry_points lib ws = src_loop ws (scripts_block lib ws (root_loop ws []))"

text \<open>The three parts of the list, as the specification describes them.\<close>

definition root_catalog :: "workspace \<Rightarrow> string list" where
  \<comment> \<open>the catalog names found at the root, in catalog order\<close>
  "root_catalog ws = filter (\<lambda>entry. exists ws [entry]) common_entries"

definition manifest_scripts :: "library \<Rightarrow> workspace \<Rightarrow> string list" where
  \<comment> \<open>the \<open>start\<close> and the \<open>dev\<close> script of a manifest that parses to an object whose
      \<open>scripts\<close> entry is an object, rendered with their labels\<close>
  "manifest_scripts lib ws =
     (case Option.bind (read_default ws [''package.json'']) (json_load lib) of
        Some (JObj data) \<Rightarrow>
          (case data ''scripts'' of
             Some (JObj scripts) \<Rightarrow>
               (case scripts ''start'' of
                  None \<Rightarrow> []
                | Some v \<Rightarrow> [''npm start: '' @ format_value lib v]) @
               (case scripts ''dev'' of
                  None \<Rightarrow> []
                | Some v \<Rightarrow> [''npm run dev: '' @ format_value lib v])
           | _ \<Rightarrow> [])
      | _ \<Rightarrow> [])"

definition nested_catalog :: "workspace \<Rightarrow> string list" where
  \<comment> \<open>the catalog names found under \<open>src\<close> and not at the root, prefixed\<close>
  "nested_catalog ws =
     map (\<lambda>entry. ''src/'' @ entry)
       (filter (\<lambda>entry. exists ws [''src'', entry] \<and> entry \<notin> set (root_catalog ws))
          common_entries)"

section \<open>Import extraction\<close>

fun import_names :: "py_ast \<Rightarrow> string list" where
  \<comment> \<open>lines 180 to 185, what one node of the walk appends\<close>
  "import_names (Import names) = map alias_name names"
| "import_names (ImportFrom None names lvl) = []"
| "import_names (ImportFrom (Some m) names lvl) = (if m \<noteq> [] then [m] else [])"
| "import_names (AliasNode a) = []"
| "import_names (Other cs) = []"

definition parse_imports_python :: "library \<Rightarrow> file_data \<Rightarrow> string list" where
  \<comment> \<open>opening, reading and parsing come before the first \<open>append\<close>, so the handler of
      line 186 returns the empty list when one of them raises\<close>
  "parse_imports_python lib f =
     (case utf8_text f of
        None \<Rightarrow> []
      | Some src \<Rightarrow>
          (case ast_parse lib src of
             None \<Rightarrow> []
           | Some t \<Rightarrow> concat (map import_names (ast_walk t))))"

definition quote_class :: string where
  \<comment> \<open>the three characters \<open>\\'"\<close> between the brackets of the patterns\<close>
  "quote_class = [CHR 0x5C, CHR 0x27, CHR 0x22]"

definition es6_pattern :: string where
  "es6_pattern =
     ''import'' @ [CHR 0x5C] @ ''s+.*?from'' @ [CHR 0x5C] @ ''s+['' @ quote_class @
     '']([^'' @ quote_class @ '']+)['' @ quote_class @ '']''"

definition require_pattern :: string where
  "require_pattern =
     ''require'' @ [CHR 0x5C] @ ''(['' @ quote_class @ '']([^'' @ quote_class @
     '']+)['' @ quote_class @ '']'' @ [CHR 0x5C] @ '')''"

definition parse_imports_js :: "library \<Rightarrow> file_data \<Rightarrow> string list" where
  "parse_imports_js lib f =
     (case utf8_text f of
        None \<Rightarrow> []
      | Some content \<Rightarrow>
          re_findall lib es6_pattern content @ re_findall lib require_pattern content)"

section \<open>The tree walk\<close>

record file_node =
  node_id :: string
  node_name :: string
  node_path :: string
  node_type :: string
  node_imports :: "string list"
  node_size :: nat

definition code_extensions :: "string list" where
  "code_extensions = [''.py'', ''.js'', ''.jsx'', ''.ts'', ''.tsx'', ''.go'', ''.java'']"

definition skip_names :: "string list" where
  "skip_names = [''node_modules'', ''venv'', ''__pycache__'', ''dist'', ''build'']"

definition is_hidden :: "path \<Rightarrow> bool" where
  \<comment> \<open>line 219, on \<open>file_path.parts\<close>\<close>
  "is_hidden parts = list_ex (\<lambda>part. startswith part ''.'') parts"

definition is_ignored :: "path \<Rightarrow> bool" where
  \<comment> \<open>line 222, on \<open>file_path.parts\<close>\<close>
  "is_ignored parts = list_ex (\<lambda>skip. skip \<in> set parts) skip_names"

definition extract_imports :: "library \<Rightarrow> string \<Rightarrow> file_data \<Rightarrow> string list" where
  \<comment> \<open>lines 228 to 233\<close>
  "extract_imports lib file_ext f =
     (if file_ext \<in> set code_extensions
      then if file_ext = ''.py'' then parse_imports_python lib f
           else if file_ext \<in> set [''.js'', ''.jsx'', ''.ts'', ''.tsx'']
                then parse_imports_js lib f
                else []
      else [])"

definition make_node :: "library \<Rightarrow> nat \<Rightarrow> path \<Rightarrow> file_data \<Rightarrow> file_node" where
  \<comment> \<open>lines 225 to 247 for the file at \<open>rel\<close> (its parts below \<open>repo_path\<close>); \<open>k\<close> counts the
      identifiers drawn so far\<close>
  "make_node lib k rel f =
     (let file_ext = suffix (path_name rel)
      in \<lparr>node_id = uuid4 lib k,
          node_name = path_name rel,
          node_path = join ''/'' rel,
          node_type = (if file_ext \<noteq> [] then file_ext else ''file''),
          node_imports = extract_imports lib file_ext f,
          node_size = (case fsize f of None \<Rightarrow> 0 | Some n \<Rightarrow> n)\<rparr>)"

fun visit ::
  "library \<Rightarrow> path \<Rightarrow> file_node list \<times> (string \<times> string list) list \<Rightarrow> path \<times> fsnode
     \<Rightarrow> file_node list \<times> (string \<times> string list) list" where
  \<comment> \<open>one turn of the loop of line 216: \<open>file_path.parts\<close> are the parts of \<open>repo_path\<close>
      followed by the parts below it; the dict keeps a key where it was first inserted\<close>
  "visit lib rt (files, deps) (rel, Dir es) = (files, deps)"
| "visit lib rt (files, deps) (rel, File f) =
     (if is_hidden (rt @ rel) then (files, deps)
      else if is_ignored (rt @ rel) then (files, deps)
      else (let n = make_node lib (length files) rel f
            in (files @ [n],
                if node_imports n \<noteq> []
                then AList.update (node_path n) (node_imports n) deps else deps)))"

definition analyze_file_structure ::
  "library \<Rightarrow> workspace \<Rightarrow> file_node list \<times> (string \<times> string list) list" where
  "analyze_file_structure lib ws =
     foldl (visit lib (root ws)) ([], []) (rglob glob_all [] (tree ws))"

definition walked ::
  "library \<Rightarrow> path \<Rightarrow> (path \<times> fsnode) list \<Rightarrow> file_node list \<times> (string \<times> string list) list" where
  \<comment> \<open>the state of the loop of line 216 after the entries \<open>xs\<close>\<close>
  "walked lib rt xs = foldl (visit lib rt) ([], []) xs"

fun well_formed :: "fsnode \<Rightarrow> bool"
  and well_formed_entries :: "(string \<times> fsnode) list \<Rightarrow> bool" where
  \<comment> \<open>a tree as a file system holds it: the names of a directory differ from one another
      and none has a slash\<close>
  "well_formed (File f) = True"
| "well_formed (Dir es) = (distinct (map fst es) \<and> well_formed_entries es)"
| "well_formed_entries [] = True"
| "well_formed_entries ((n, c) # es) =
     (CHR ''/'' \<notin> set n \<and> well_formed c \<and> well_formed_entries es)"

section \<open>Insights\<close>

text \<open>
  The argument of \<open>get_ai_insights\<close> is a dict; a field is \<open>None\<close> when the key is missing,
  and reading it raises \<open>KeyError\<close>. An exception is kept as its message, \<open>str(e)\<close>.
\<close>

record repo_info =
  ri_repo_name :: "string option"
  ri_framework :: "string option"
  ri_entry_points :: "string list option"
  ri_file_count :: "nat option"
  ri_dependencies :: "(string \<times> string list) list option"

text \<open>
  What the request handler calls outside the program: the temporary directory, the
  clone, the recursive deletion (\<open>None\<close>: everything was removed; otherwise it raised and
  this is left), the API key of the environment, the chat client (\<open>Some\<close>: building it
  raised), the call to the model, the insertion into the database (\<open>Some\<close>: it raised),
  the identifier and the time stamp of the profile.
\<close>

record environment =
  mkdtemp :: "string + path"
  clone_from :: "string \<Rightarrow> path \<Rightarrow> (string \<times> fsnode) + fsnode"
  rmtree :: "path \<Rightarrow> fsnode \<Rightarrow> fsnode option"
  llm_key :: "string option"
  new_chat :: "string \<Rightarrow> string option"
  send_message :: "string \<Rightarrow> string \<Rightarrow> string + string"
  insert_one_error :: "string option"
  fresh_id :: string
  now :: string

definition item :: "string \<Rightarrow> 'a option \<Rightarrow> string + 'a" where
  \<comment> \<open>\<open>repo_info[key]\<close>; the message of a \<open>KeyError\<close> is the key between quotes\<close>
  "item k v = (case v of None \<Rightarrow> Inl ([CHR 0x27] @ k @ [CHR 0x27]) | Some x \<Rightarrow> Inr x)"

definition prompt_text ::
  "string \<Rightarrow> string \<Rightarrow> string list \<Rightarrow> nat \<Rightarrow> (string \<times> string list) list \<Rightarrow> string" where
  "prompt_text name fw eps n deps =
     ''Analyze this repository and provide key insights:\<newline>\<newline>Repository: '' @ name @
     ''\<newline>Framework: '' @ fw @
     ''\<newline>Entry Points: '' @ join '', '' eps @
     ''\<newline>Total Files: '' @ show_nat n @
     ''\<newline>Key Dependencies: '' @ join '', '' (take 10 (map fst deps)) @
     ''\<newline>\<newline>Provide:\<newline>1. Brief overview of the project structure'' @
     ''\<newline>2. How to run/execute the project'' @
     ''\<newline>3. Key architectural patterns identified'' @
     ''\<newline>4. Suggestions for understanding the codebase'' @
     ''\<newline>\<newline>Keep it concise and actionable.''"

definition build_prompt :: "repo_info \<Rightarrow> string + string" where
  \<comment> \<open>lines 268 to 282: the fields are read from left to right\<close>
  "build_prompt info =
     (case item ''repo_name'' (ri_repo_name info) of Inl e \<Rightarrow> Inl e | Inr name \<Rightarrow>
     (case item ''framework'' (ri_framework info) of Inl e \<Rightarrow> Inl e | Inr fw \<Rightarrow>
     (case item ''entry_points'' (ri_entry_points info) of Inl e \<Rightarrow> Inl e | Inr eps \<Rightarrow>
     (case item ''file_count'' (ri_file_count info) of Inl e \<Rightarrow> Inl e | Inr n \<Rightarrow>
     (case item ''dependencies'' (ri_dependencies info) of Inl e \<Rightarrow> Inl e | Inr deps \<Rightarrow>
        Inr (prompt_text name fw eps n deps))))))"

definition insights_body :: "environment \<Rightarrow> repo_info \<Rightarrow> string + string" where
  \<comment> \<open>lines 258 to 286, the body of the \<open>try\<close>: \<open>Inl\<close> is an exception it raises\<close>
  "insights_body env info =
     (case llm_key env of
        None \<Rightarrow> Inr ''AI insights unavailable: API key not configured''
      | Some k \<Rightarrow>
          if k = [] then Inr ''AI insights unavailable: API key not configured''
          else (case new_chat env k of
                  Some e \<Rightarrow> Inl e
                | None \<Rightarrow>
                    (case build_prompt info of
                       Inl e \<Rightarrow> Inl e
                     | Inr prompt \<Rightarrow> send_message env k prompt)))"

definition get_ai_insights :: "environment \<Rightarrow> repo_info \<Rightarrow> string + string" where
  \<comment> \<open>with the handler of line 287; \<open>Inl\<close> would be an exception leaving the function\<close>
  "get_ai_insights env info =
     (case insights_body env info of
        Inl e \<Rightarrow> Inr (''AI insights unavailable: '' @ e)
      | Inr response \<Rightarrow> Inr response)"

section \<open>The request handler\<close>

record repository_analysis =
  analysis_id :: string
  github_url :: string
  repo_name :: string
  framework :: "string option"
  entry_points :: "string list"
  file_structure :: "file_node list"
  dependencies :: "(string \<times> string list) list"
  ai_insights :: "string option"
  timestamp :: string

datatype failure =
    HTTPException nat string
  | Unhandled string

definition cleanup ::
  "environment \<Rightarrow> path option \<Rightarrow> (path \<Rightarrow> fsnode option) \<Rightarrow> (path \<Rightarrow> fsnode option)" where
  \<comment> \<open>the \<open>finally\<close> block, lines 351 to 357, on the directories of the disk\<close>
  "cleanup env temp_dir disk =
     (case temp_dir of
        None \<Rightarrow> disk
      | Some d \<Rightarrow>
          (case disk d of
             None \<Rightarrow> disk
           | Some t \<Rightarrow>
               (case rmtree env d t of
                  None \<Rightarrow> disk(d := None)
                | Some left \<Rightarrow> disk(d \<mapsto> left))))"

definition derive_repo_name :: "string \<Rightarrow> string" where
  \<comment> \<open>line 311\<close>
  "derive_repo_name url = remove_all ''.git'' (last_segment (CHR ''/'') (rstrip (CHR ''/'') url))"

definition run_pipeline ::
  "library \<Rightarrow> environment \<Rightarrow> string \<Rightarrow> workspace \<Rightarrow> failure + repository_analysis" where
  \<comment> \<open>lines 310 to 349, once the clone is there\<close>
  "run_pipeline lib env url ws =
     (let name = derive_repo_name url;
          fw = detect_framework lib ws;
          eps = find_entry_points lib ws;
          walked = analyze_file_structure lib ws
      in case get_ai_insights env
                \<lparr>ri_repo_name = Some name, ri_framework = Some fw, ri_entry_points = Some eps,
                 ri_file_count = Some (length (fst walked)),
                 ri_dependencies = Some (snd walked)\<rparr> of
           Inl e \<Rightarrow> Inl (Unhandled e)
         | Inr insights \<Rightarrow>
             (case insert_one_error env of
                Some e \<Rightarrow> Inl (Unhandled e)
              | None \<Rightarrow>
                  Inr \<lparr>analysis_id = fresh_id env, github_url = url, repo_name = name,
                       framework = Some fw, entry_points = eps,
                       file_structure = fst walked, dependencies = snd walked,
                       ai_insights = Some insights, timestamp = now env\<rparr>))"

definition analyze_repository ::
  "library \<Rightarrow> environment \<Rightarrow> string \<Rightarrow> (path \<Rightarrow> fsnode option)
     \<Rightarrow> (failure + repository_analysis) \<times> (path \<Rightarrow> fsnode option)" where
  \<comment> \<open>the response, and the disk when the handler returns\<close>
  "analyze_repository lib env url disk =
     (case mkdtemp env of
        Inl e \<Rightarrow> (Inl (Unhandled e), cleanup env None disk)
      | Inr d \<Rightarrow>
          (case clone_from env url d of
             Inl (e, left) \<Rightarrow>
               (Inl (HTTPException 400 (''Failed to clone repository: '' @ e)),
                cleanup env (Some d) (disk(d \<mapsto> left)))
           | Inr t \<Rightarrow>
               (run_pipeline lib env url \<lparr>root = d, tree = t\<rparr>,
                cleanup env (Some d) (disk(d \<mapsto> t)))))"

section \<open>Example inputs\<close>

definition text_file :: "string \<Rightarrow> file_data" where
  "text_file s = \<lparr>fsize = Some (length s), utf8_text = Some s, locale_text = Some s\<rparr>"

definition pkg_react_text :: string where
  \<open>pkg_react_text = ''{"dependencies": {"react": "18.2.0"}}''\<close>

definition pkg_next_text :: string where
  \<open>pkg_next_text = ''{"dependencies": {"next": "13.0.0", "react": "18.2.0"}}''\<close>

definition pkg_null_dev_text :: string where
  \<open>pkg_null_dev_text = ''{"dependencies": {"next": "13.0.0"}, "devDependencies": null}''\<close>

definition pkg_scripts_text :: string where
  \<open>pkg_scripts_text = ''{"scripts": {"start": "node index.js", "dev": "vite"}}''\<close>

definition main_py_text :: string where
  "main_py_text = ''import os\<newline>from foo import bar''"

definition main_py_tree :: py_ast where
  "main_py_tree =
     Other [Import [\<lparr>alias_name = ''os'', asname = None\<rparr>],
            ImportFrom (Some ''foo'') [\<lparr>alias_name = ''bar'', asname = None\<rparr>] 0]"

definition example_json :: "string \<Rightarrow> json option" where
  "example_json =
     map_of
       [(pkg_react_text, JObj [''dependencies'' \<mapsto> JObj [''react'' \<mapsto> JStr ''18.2.0'']]),
        (pkg_next_text,
         JObj [''dependencies'' \<mapsto> JObj [''next'' \<mapsto> JStr ''13.0.0'', ''react'' \<mapsto> JStr ''18.2.0'']]),
        (pkg_null_dev_text,
         JObj [''dependencies'' \<mapsto> JObj [''next'' \<mapsto> JStr ''13.0.0''], ''devDependencies'' \<mapsto> JNull]),
        (pkg_scripts_text,
         JObj [''scripts'' \<mapsto> JObj [''start'' \<mapsto> JStr ''node index.js'', ''dev'' \<mapsto> JStr ''vite'']])]"

definition example_library :: library where
  "example_library =
     \<lparr>json_load = example_json,
      ast_parse = map_of [(main_py_text, main_py_tree)],
      re_findall = (\<lambda>pat content. []),
      py_str = (\<lambda>v. ''None''),
      uuid4 = (\<lambda>k. ''file-'' @ show_nat k)\<rparr>"

definition tmp_root :: path where
  "tmp_root = [''/'', ''tmp'', ''tmpk3v9x1ab'']"

definition ws_go_react :: workspace where
  "ws_go_react =
     \<lparr>root = tmp_root,
      tree = Dir [(''go.mod'', File (text_file ''module demo'')),
                  (''src'', Dir [(''app.js'', File (text_file ''import React from x''))])]\<rparr>"

definition ws_pkg_react :: workspace where
  "ws_pkg_react =
     \<lparr>root = tmp_root,
      tree = Dir [(''package.json'', File (text_file pkg_react_text)),
                  (''src'', Dir [(''app.js'', File (text_file ''import React from x''))])]\<rparr>"

definition ws_null_dev :: workspace where
  "ws_null_dev =
     \<lparr>root = tmp_root,
      tree = Dir [(''package.json'', File (text_file pkg_null_dev_text)),
                  (''src'', Dir [(''app.js'', File (text_file ''import React from x''))])]\<rparr>"

definition ws_pkg_next :: workspace where
  "ws_pkg_next =
     \<lparr>root = tmp_root,
      tree = Dir [(''package.json'', File (text_file pkg_next_text)),
                  (''src'', Dir [(''app.js'', File (text_file ''import React from x''))])]\<rparr>"

definition minimal_tree :: fsnode where
  "minimal_tree =
     Dir [(''requirements.txt'', File (text_file ''fastapi==0.95.0'')),
          (''main.py'', File (text_file main_py_text))]"

definition env_ok :: environment where
  \<comment> \<open>the clone succeeds, the model cannot be reached, the deletion succeeds\<close>
  "env_ok =
     \<lparr>mkdtemp = Inr tmp_root,
      clone_from = (\<lambda>url d. Inr minimal_tree),
      rmtree = (\<lambda>d t. None),
      llm_key = Some ''sk-test'',
      new_chat = (\<lambda>k. None),
      send_message = (\<lambda>k prompt. Inl ''connection refused''),
      insert_one_error = None,
      fresh_id = ''analysis-1'',
      now = ''2024-01-01T00:00:00+00:00''\<rparr>"

definition env_no_repo :: environment where
  \<comment> \<open>the clone fails, the deletion succeeds\<close>
  "env_no_repo = env_ok\<lparr>clone_from := (\<lambda>url d. Inl (''repository not found'', Dir []))\<rparr>"

definition env_stuck :: environment where
  \<comment> \<open>the clone fails and the deletion raises, leaving the directory as it is\<close>
  "env_stuck = env_no_repo\<lparr>rmtree := (\<lambda>d t. Some t)\<rparr>"

definition example_info :: repo_info where
  "example_info =
     \<lparr>ri_repo_name = Some ''demo'', ri_framework = Some ''FastAPI'',
      ri_entry_points = Some [''main.py''], ri_file_count = Some 2,
      ri_dependencies = Some [(''main.py'', [''os'', ''foo''])]\<rparr>"

definition ws_entries :: workspace where
  "ws_entries =
     \<lparr>root = tmp_root,
      tree = Dir [(''package.json'', File (text_file pkg_scripts_text)),
                  (''index.js'', File (text_file ''require(x)'')),
                  (''src'', Dir [(''index.js'', File (text_file ''require(y)'')),
                                 (''App.js'', File (text_file ''export default 1''))])]\<rparr>"

definition ws_go :: workspace where
  "ws_go =
     \<lparr>root = tmp_root,
      tree = Dir [(''main.go'', File (text_file ''package main'')),
                  (''main.py'', File (text_file main_py_text))]\<rparr>"

definition ws_minimal :: "path \<Rightarrow> workspace" where
  \<comment> \<open>the repository of the end-to-end scenario, checked out at \<open>rt\<close>\<close>
  "ws_minimal rt = \<lparr>root = rt, tree = minimal_tree\<rparr>"

definition hidden_root :: path where
  \<comment> \<open>a temporary directory below \<open>TMPDIR=/home/dev/.cache\<close>\<close>
  "hidden_root = [''/'', ''home'', ''dev'', ''.cache'', ''tmpk3v9x1ab'']"

lemmas eval_fs = exists_def read_utf8_def read_default_def text_file_def rglob_def
  select_children_def glob_js_def glob_all_def startswith_def
lemmas eval_detect = detect_framework_def detected_def sampled_def manifest_signal_def
  package_json_pass_def dependency_keys_def package_frameworks_def sampling_pass_def
  requirements_pass_def marker_pass_def has_react_fingerprint_def lower_def lower_char_def
lemmas eval_lib = example_library_def example_json_def pkg_react_text_def pkg_next_text_def
  pkg_null_dev_text_def pkg_scripts_text_def main_py_text_def main_py_tree_def
lemmas eval_walk = analyze_file_structure_def rglob_def select_children_def glob_all_def
  is_hidden_def is_ignored_def skip_names_def startswith_def make_node_def Let_def
  path_name_def suffix_def last_segment_def extract_imports_def code_extensions_def
  parse_imports_python_def parse_imports_js_def text_file_def ast_walk_def digit_char_def

section \<open>Facts about strings and labels\<close>

lemma startswith_iff: "startswith s p \<longleftrightarrow> (\<exists>post. s = p @ post)"
proof
  assume "startswith s p"
  then have "s = p @ drop (length p) s"
    unfolding startswith_def by (metis append_take_drop_id)
  then show "\<exists>post. s = p @ post" ..
next
  assume "\<exists>post. s = p @ post"
  then show "startswith s p" by (auto simp: startswith_def)
qed

lemma sub_in_iff: "sub_in n s \<longleftrightarrow> (\<exists>pre post. s = pre @ n @ post)"
proof (induction s)
  case Nil
  then show ?case by auto
next
  case (Cons c cs)
  show ?case
  proof
    assume "sub_in n (c # cs)"
    then consider "startswith (c # cs) n" | "sub_in n cs" by auto
    then show "\<exists>pre post. c # cs = pre @ n @ post"
    proof cases
      case 1
      then obtain post where "c # cs = n @ post" by (auto simp: startswith_iff)
      then have "c # cs = [] @ n @ post" by simp
      then show ?thesis by blast
    next
      case 2
      with Cons.IH obtain pre post where "cs = pre @ n @ post" by blast
      then have "c # cs = (c # pre) @ n @ post" by simp
      then show ?thesis by blast
    qed
  next
    assume "\<exists>pre post. c # cs = pre @ n @ post"
    then obtain pre post where e: "c # cs = pre @ n @ post" by blast
    show "sub_in n (c # cs)"
    proof (cases pre)
      case Nil
      with e have "startswith (c # cs) n" by (auto simp: startswith_iff)
      then show ?thesis by simp
    next
      case (Cons a pre')
      with e have "cs = pre' @ n @ post" by simp
      with Cons.IH have "sub_in n cs" by blast
      then show ?thesis by simp
    qed
  qed
qed

lemma sub_in_set: "sub_in n s \<Longrightarrow> set n \<subseteq> set s"
  by (auto simp: sub_in_iff)

lemma set_join: "set (join sep xs) \<subseteq> set sep \<union> (\<Union>x\<in>set xs. set x)"
  by (induction sep xs rule: join.induct) auto

lemma sub_in_join_head: "sub_in x (join sep (x # xs))"
proof (cases xs)
  case Nil
  have "x = [] @ x @ []" by simp
  then show ?thesis unfolding Nil sub_in_iff join.simps by blast
next
  case (Cons y ys)
  have "join sep (x # y # ys) = [] @ x @ (sep @ join sep (y # ys))" by simp
  then show ?thesis unfolding Cons sub_in_iff by blast
qed

lemma three_labels:
  "set ((if a then [x] else []) @ (if b then [y] else []) @ (if c then [z] else [])) \<subseteq> {x, y, z}"
  by (cases a; cases b; cases c; simp)

lemma requirements_pass_labels:
  "set (requirements_pass ws) \<subseteq> {''Django'', ''Flask'', ''FastAPI''}"
proof (cases "read_default ws [''requirements.txt'']")
  case None
  then have "requirements_pass ws = []" unfolding requirements_pass_def by simp
  then show ?thesis by simp
next
  case (Some content)
  show ?thesis
  proof (cases "exists ws [''requirements.txt'']")
    case True
    then have "requirements_pass ws =
        (if sub_in ''django'' (lower content) then [''Django''] else []) @
        (if sub_in ''flask'' (lower content) then [''Flask''] else []) @
        (if sub_in ''fastapi'' (lower content) then [''FastAPI''] else [])"
      unfolding requirements_pass_def Let_def Some by simp
    then show ?thesis using three_labels by metis
  next
    case False
    then have "requirements_pass ws = []" unfolding requirements_pass_def by simp
    then show ?thesis by simp
  qed
qed

lemma marker_pass_labels: "set (marker_pass ws) \<subseteq> {''Go'', ''Java/Maven'', ''Java/Gradle''}"
  unfolding marker_pass_def by (rule three_labels)

lemma labels_without_R:
  "\<forall>x\<in>{''Next.js'', ''Vue'', ''Angular'', ''Svelte'', ''Django'', ''Flask'', ''FastAPI'',
        ''Go'', ''Java/Maven'', ''Java/Gradle''}. CHR ''R'' \<notin> set x"
  by simp

lemma package_frameworks_next:
  "''next'' \<in> dom deps \<Longrightarrow>
   \<exists>rest. package_frameworks deps = ''Next.js'' # rest \<and> set rest \<subseteq> {''Vue'', ''Angular'', ''Svelte''}"
  unfolding package_frameworks_def using three_labels by fastforce

lemma package_frameworks_react:
  "''next'' \<notin> dom deps \<Longrightarrow> ''react'' \<in> dom deps \<or> ''react-dom'' \<in> dom deps \<Longrightarrow>
   \<exists>rest. package_frameworks deps = ''React'' # rest"
  unfolding package_frameworks_def by simp

lemma dependency_keys_sections:
  assumes "read_utf8 ws [''package.json''] = Some txt"
    and "json_load lib txt = Some (JObj data)"
    and "manifest_section data ''dependencies'' = Some d1"
    and "manifest_section data ''devDependencies'' = Some d2"
  shows "package_json_pass lib ws = package_frameworks (d1 ++ d2)"
proof -
  have e: "exists ws [''package.json'']"
    using assms(1) by (auto simp: exists_def read_utf8_def split: option.splits)
  have a: "Option.bind (py_get (JObj data) ''dependencies'' (JObj Map.empty)) as_mapping = Some d1"
    using assms(3) by (auto simp: manifest_section_def split: option.splits)
  have b: "Option.bind (py_get (JObj data) ''devDependencies'' (JObj Map.empty)) as_mapping = Some d2"
    using assms(4) by (auto simp: manifest_section_def split: option.splits)
  have "dependency_keys lib ws = Some (d1 ++ d2)"
    using a b assms(1,2)
    by (auto simp: dependency_keys_def split: option.splits Option.bind_splits)
  with e show ?thesis by (simp add: package_json_pass_def)
qed

lemma label_union:
  assumes "set r \<subseteq> {v, a, s}" and "set q \<subseteq> {d, f, p}" and "set m \<subseteq> {g, j, k}"
  shows "set (n # r @ q @ m) \<subseteq> {n, v, a, s, d, f, p, g, j, k}"
  using assms by auto

lemma no_capital_R:
  assumes "set xs \<subseteq> {''Next.js'', ''Vue'', ''Angular'', ''Svelte'', ''Django'', ''Flask'', ''FastAPI'',
                       ''Go'', ''Java/Maven'', ''Java/Gradle''}"
  shows "\<not> sub_in ''React'' (join '', '' xs)"
proof
  assume "sub_in ''React'' (join '', '' xs)"
  then have "set ''React'' \<subseteq> set (join '', '' xs)" by (rule sub_in_set)
  then have "CHR ''R'' \<in> set (join '', '' xs)" by simp
  with set_join have "CHR ''R'' \<in> set '', '' \<union> (\<Union>x\<in>set xs. set x)" by (rule subsetD)
  then have "CHR ''R'' \<in> (\<Union>x\<in>set xs. set x)" by simp
  then obtain x where x: "x \<in> set xs" and r: "CHR ''R'' \<in> set x" by (rule UN_E)
  from assms x have "x \<in> {''Next.js'', ''Vue'', ''Angular'', ''Svelte'', ''Django'', ''Flask'',
      ''FastAPI'', ''Go'', ''Java/Maven'', ''Java/Gradle''}" by (rule subsetD)
  with labels_without_R have "CHR ''R'' \<notin> set x" by (rule bspec)
  with r show False by simp
qed

section \<open>Claims about framework detection\<close>

text \<open>
  C3, as stated: the content sampling runs only if no manifest check (\<open>package.json\<close>,
  \<open>requirements.txt\<close>, \<open>go.mod\<close>, \<open>pom.xml\<close>, \<open>build.gradle\<close>) produced a framework. The
  workspace below has a \<open>go.mod\<close> and a \<open>src/app.js\<close> that starts with an import of React:
  the manifest checks yield \<open>Go\<close>, and the sampling still contributes \<open>React\<close>.
\<close>

theorem sampling_after_manifest_counterexample:
  "manifest_signal example_library ws_go_react = [''Go''] \<and>
   sampled example_library ws_go_react = [''React''] \<and>
   detect_framework example_library ws_go_react = ''React, Go''"
  by (simp add: ws_go_react_def eval_fs eval_detect)

text \<open>
  C3, amended: the sampling is gated by the \<open>package.json\<close> check alone. When that
  check yields a framework the sampling contributes nothing and the label is made of the
  manifest checks only; when it yields none the sampling runs, whatever the later
  manifest checks find, and their labels follow its own.
\<close>

theorem sampling_gated_by_package_json:
  "(package_json_pass lib ws \<noteq> [] \<longrightarrow>
      sampled lib ws = [] \<and>
      detect_framework lib ws = join '', '' (manifest_signal lib ws)) \<and>
   (package_json_pass lib ws = [] \<longrightarrow>
      sampled lib ws = sampling_pass ws \<and>
      detected lib ws = sampling_pass ws @ requirements_pass ws @ marker_pass ws)"
  by (simp add: sampled_def detected_def detect_framework_def manifest_signal_def)

lemma pkg_react_pass: "package_json_pass example_library ws_pkg_react = [''React'']"
  by (simp add: ws_pkg_react_def eval_fs eval_detect eval_lib)

theorem sampling_gated_by_package_json_witness:
  "package_json_pass example_library ws_pkg_react \<noteq> [] \<and>
   sampling_pass ws_pkg_react = [''React''] \<and>
   sampled example_library ws_pkg_react = [] \<and>
   detect_framework example_library ws_pkg_react = ''React''"
proof -
  have p: "package_json_pass example_library ws_pkg_react = [''React'']"
    by (rule pkg_react_pass)
  have s: "sampling_pass ws_pkg_react = [''React'']"
    by (simp add: ws_pkg_react_def eval_fs eval_detect)
  have r: "requirements_pass ws_pkg_react = [] \<and> marker_pass ws_pkg_react = []"
    by (simp add: requirements_pass_def marker_pass_def ws_pkg_react_def eval_fs)
  have m: "manifest_signal example_library ws_pkg_react = [''React'']"
    by (simp add: manifest_signal_def p r)
  from sampling_gated_by_package_json [of example_library ws_pkg_react] p s m
  show ?thesis by simp
qed

text \<open>
  C2, as stated: every workspace whose \<open>package.json\<close> dependencies hold the key \<open>next\<close>
  gets a label with \<open>Next.js\<close> and without \<open>React\<close>. In the workspace below the manifest
  parses, its \<open>dependencies\<close> hold \<open>next\<close>, and its \<open>devDependencies\<close> entry is \<open>null\<close>:
  merging the two entries raises, the handler of line 89 drops the whole manifest, and
  the sampling of \<open>src/app.js\<close> gives the label \<open>React\<close>.
\<close>

theorem malformed_section_counterexample:
  "read_utf8 ws_null_dev [''package.json''] = Some pkg_null_dev_text \<and>
   json_load example_library pkg_null_dev_text
     = Some (JObj [''dependencies'' \<mapsto> JObj [''next'' \<mapsto> JStr ''13.0.0''],
                   ''devDependencies'' \<mapsto> JNull]) \<and>
   detect_framework example_library ws_null_dev = ''React''"
  by (simp add: ws_null_dev_def eval_fs eval_detect eval_lib)

text \<open>
  C2, amended: for every workspace whose \<open>package.json\<close> parses to an object in which
  \<open>dependencies\<close> and \<open>devDependencies\<close> are each absent or an object, a key \<open>next\<close> in
  either of them gives a label that contains \<open>Next.js\<close> and does not contain \<open>React\<close>,
  also when \<open>react\<close> is there; without \<open>next\<close>, a key \<open>react\<close> or \<open>react-dom\<close> gives a label
  that contains \<open>React\<close>.
\<close>

theorem next_takes_precedence:
  assumes "read_utf8 ws [''package.json''] = Some txt"
    and "json_load lib txt = Some (JObj data)"
    and "manifest_section data ''dependencies'' = Some d1"
    and "manifest_section data ''devDependencies'' = Some d2"
  shows "(''next'' \<in> dom d1 \<union> dom d2 \<longrightarrow>
            sub_in ''Next.js'' (detect_framework lib ws) \<and>
            \<not> sub_in ''React'' (detect_framework lib ws)) \<and>
         (''next'' \<notin> dom d1 \<union> dom d2 \<and>
          (''react'' \<in> dom d1 \<union> dom d2 \<or> ''react-dom'' \<in> dom d1 \<union> dom d2) \<longrightarrow>
            sub_in ''React'' (detect_framework lib ws))"
proof (intro conjI impI)
  note p = dependency_keys_sections [OF assms]
  {
    assume n: "''next'' \<in> dom d1 \<union> dom d2"
    then have "''next'' \<in> dom (d1 ++ d2)" by auto
    from package_frameworks_next [OF this] obtain rest
      where r: "package_frameworks (d1 ++ d2) = ''Next.js'' # rest"
        and s: "set rest \<subseteq> {''Vue'', ''Angular'', ''Svelte''}" by blast
    have d: "detected lib ws = ''Next.js'' # rest @ requirements_pass ws @ marker_pass ws"
      by (simp add: detected_def sampled_def p r)
    then have l: "detect_framework lib ws
                 = join '', '' (''Next.js'' # rest @ requirements_pass ws @ marker_pass ws)"
      by (simp add: detect_framework_def)
    show "sub_in ''Next.js'' (detect_framework lib ws)"
      unfolding l by (rule sub_in_join_head)
    have "set (''Next.js'' # rest @ requirements_pass ws @ marker_pass ws)
          \<subseteq> {''Next.js'', ''Vue'', ''Angular'', ''Svelte'', ''Django'', ''Flask'', ''FastAPI'',
              ''Go'', ''Java/Maven'', ''Java/Gradle''}"
      by (rule label_union [OF s requirements_pass_labels marker_pass_labels])
    then show "\<not> sub_in ''React'' (detect_framework lib ws)"
      unfolding l by (rule no_capital_R)
  }
  {
    assume n: "''next'' \<notin> dom d1 \<union> dom d2 \<and>
               (''react'' \<in> dom d1 \<union> dom d2 \<or> ''react-dom'' \<in> dom d1 \<union> dom d2)"
    then have "''next'' \<notin> dom (d1 ++ d2)"
      and "''react'' \<in> dom (d1 ++ d2) \<or> ''react-dom'' \<in> dom (d1 ++ d2)" by auto
    from package_frameworks_react [OF this] obtain rest
      where r: "package_frameworks (d1 ++ d2) = ''React'' # rest" by blast
    have "detected lib ws = ''React'' # rest @ requirements_pass ws @ marker_pass ws"
      by (simp add: detected_def sampled_def p r)
    then have l: "detect_framework lib ws
                 = join '', '' (''React'' # rest @ requirements_pass ws @ marker_pass ws)"
      by (simp add: detect_framework_def)
    show "sub_in ''React'' (detect_framework lib ws)"
      unfolding l by (rule sub_in_join_head)
  }
qed


theorem next_takes_precedence_witness:
  "read_utf8 ws_pkg_next [''package.json''] = Some pkg_next_text \<and>
   json_load example_library pkg_next_text
     = Some (JObj [''dependencies'' \<mapsto> JObj [''next'' \<mapsto> JStr ''13.0.0'', ''react'' \<mapsto> JStr ''18.2.0'']]) \<and>
   sub_in ''Next.js'' (detect_framework example_library ws_pkg_next) \<and>
   \<not> sub_in ''React'' (detect_framework example_library ws_pkg_next) \<and>
   detect_framework example_library ws_pkg_next = ''Next.js'' \<and>
   sub_in ''React'' (detect_framework example_library ws_pkg_react)"
proof -
  have 1: "read_utf8 ws_pkg_next [''package.json''] = Some pkg_next_text"
    by (simp add: ws_pkg_next_def eval_fs)
  have 2: "json_load example_library pkg_next_text
     = Some (JObj [''dependencies'' \<mapsto> JObj [''next'' \<mapsto> JStr ''13.0.0'', ''react'' \<mapsto> JStr ''18.2.0'']])"
    by (simp add: eval_lib)
  have 3: "manifest_section [''dependencies'' \<mapsto> JObj [''next'' \<mapsto> JStr ''13.0.0'', ''react'' \<mapsto> JStr ''18.2.0'']]
             ''dependencies'' = Some [''next'' \<mapsto> JStr ''13.0.0'', ''react'' \<mapsto> JStr ''18.2.0'']"
    by (simp add: manifest_section_def)
  have 4: "manifest_section [''dependencies'' \<mapsto> JObj [''next'' \<mapsto> JStr ''13.0.0'', ''react'' \<mapsto> JStr ''18.2.0'']]
             ''devDependencies'' = Some Map.empty"
    by (simp add: manifest_section_def)
  have 5: "detect_framework example_library ws_pkg_next = ''Next.js''"
    by (simp add: ws_pkg_next_def eval_fs eval_detect eval_lib)
  have 6: "read_utf8 ws_pkg_react [''package.json''] = Some pkg_react_text"
    by (simp add: ws_pkg_react_def eval_fs)
  have 7: "json_load example_library pkg_react_text
     = Some (JObj [''dependencies'' \<mapsto> JObj [''react'' \<mapsto> JStr ''18.2.0'']])"
    by (simp add: eval_lib)
  have 8: "manifest_section [''dependencies'' \<mapsto> JObj [''react'' \<mapsto> JStr ''18.2.0'']]
             ''dependencies'' = Some [''react'' \<mapsto> JStr ''18.2.0'']"
    by (simp add: manifest_section_def)
  have 9: "manifest_section [''dependencies'' \<mapsto> JObj [''react'' \<mapsto> JStr ''18.2.0'']]
             ''devDependencies'' = Some Map.empty"
    by (simp add: manifest_section_def)
  from next_takes_precedence [OF 1 2 3 4] next_takes_precedence [OF 6 7 8 9] 1 2 5
  show ?thesis by simp
qed

section \<open>Claims about import extraction\<close>

lemma nodes_children:
  "set (nodes t) = insert t (\<Union>c\<in>set (iter_child_nodes t). set (nodes c))"
  by (cases t) auto

lemma walk_queue_set: "set (walk_queue q) = (\<Union>t\<in>set q. set (nodes t))"
proof (induction q rule: walk_queue.induct)
  case 1
  show ?case by simp
next
  case (2 t q)
  have "set (walk_queue (t # q)) = insert t (set (walk_queue (q @ iter_child_nodes t)))"
    by simp
  also have "\<dots> = insert t ((\<Union>u\<in>set q. set (nodes u)) \<union>
                        (\<Union>c\<in>set (iter_child_nodes t). set (nodes c)))"
    using "2.IH" by simp
  also have "\<dots> = set (nodes t) \<union> (\<Union>u\<in>set q. set (nodes u))"
    by (subst nodes_children [of t]) blast
  finally have l: "set (walk_queue (t # q)) = set (nodes t) \<union> (\<Union>u\<in>set q. set (nodes u))" .
  have r: "(\<Union>u\<in>set (t # q). set (nodes u)) = set (nodes t) \<union> (\<Union>u\<in>set q. set (nodes u))"
    by simp
  show ?case by (simp only: l r)
qed

lemma ast_walk_set: "set (ast_walk t) = set (nodes t)"
  unfolding ast_walk_def walk_queue_set by simp

lemma parsed_imports:
  assumes "utf8_text f = Some src" and "ast_parse lib src = Some t"
  shows "set (parse_imports_python lib f) = (\<Union>n\<in>set (nodes t). set (import_names n))"
  using assms by (simp add: parse_imports_python_def ast_walk_set del: walk_queue.simps)

lemma import_names_cases:
  "x \<in> set (import_names n) \<longleftrightarrow>
     (\<exists>names a. n = Import names \<and> a \<in> set names \<and> x = alias_name a) \<or>
     (\<exists>names lvl. n = ImportFrom (Some x) names lvl \<and> x \<noteq> [])"
proof (cases n)
  case (Import names)
  then show ?thesis by auto
next
  case (ImportFrom m names lvl)
  then show ?thesis by (cases m) auto
next
  case (AliasNode a)
  then show ?thesis by simp
next
  case (Other cs)
  then show ?thesis by simp
qed

text \<open>
  C4: for a Python file that can be read and parsed, the extraction returns the name of
  every alias of every \<open>import\<close> statement of the tree and the module of every
  \<open>from X import Y\<close> statement, wherever the statement stands in the tree, and returns
  nothing else; for a file that cannot be read or does not parse it returns the empty
  list. The function is total: there is no input on which it raises.
\<close>

theorem python_imports_collected:
  "(utf8_text f = None \<or> (\<exists>src. utf8_text f = Some src \<and> ast_parse lib src = None)
      \<longrightarrow> parse_imports_python lib f = []) \<and>
   (\<forall>src t. utf8_text f = Some src \<and> ast_parse lib src = Some t \<longrightarrow>
      (\<forall>names a. Import names \<in> set (nodes t) \<and> a \<in> set names
          \<longrightarrow> alias_name a \<in> set (parse_imports_python lib f)) \<and>
      (\<forall>m names lvl. ImportFrom (Some m) names lvl \<in> set (nodes t) \<and> m \<noteq> []
          \<longrightarrow> m \<in> set (parse_imports_python lib f)) \<and>
      (\<forall>x. x \<in> set (parse_imports_python lib f) \<longrightarrow>
          (\<exists>names a. Import names \<in> set (nodes t) \<and> a \<in> set names \<and> x = alias_name a) \<or>
          (\<exists>names lvl. ImportFrom (Some x) names lvl \<in> set (nodes t))))"
proof (intro conjI allI impI)
  assume "utf8_text f = None \<or> (\<exists>src. utf8_text f = Some src \<and> ast_parse lib src = None)"
  then show "parse_imports_python lib f = []"
    by (auto simp: parse_imports_python_def)
next
  fix src t names a
  assume p: "utf8_text f = Some src \<and> ast_parse lib src = Some t"
    and i: "Import names \<in> set (nodes t) \<and> a \<in> set names"
  have "alias_name a \<in> set (import_names (Import names))" using i by simp
  with i show "alias_name a \<in> set (parse_imports_python lib f)"
    using parsed_imports [of f src lib t] p by blast
next
  fix src t m names lvl
  assume p: "utf8_text f = Some src \<and> ast_parse lib src = Some t"
    and i: "ImportFrom (Some m) names lvl \<in> set (nodes t) \<and> m \<noteq> []"
  have "m \<in> set (import_names (ImportFrom (Some m) names lvl))" using i by simp
  with i show "m \<in> set (parse_imports_python lib f)"
    using parsed_imports [of f src lib t] p by blast
next
  fix src t x
  assume p: "utf8_text f = Some src \<and> ast_parse lib src = Some t"
    and x: "x \<in> set (parse_imports_python lib f)"
  then obtain n where n: "n \<in> set (nodes t)" and xn: "x \<in> set (import_names n)"
    using parsed_imports [of f src lib t] by auto
  from xn show "(\<exists>names a. Import names \<in> set (nodes t) \<and> a \<in> set names \<and> x = alias_name a) \<or>
          (\<exists>names lvl. ImportFrom (Some x) names lvl \<in> set (nodes t))"
    unfolding import_names_cases using n by blast
qed

theorem python_imports_collected_witness:
  "utf8_text (text_file main_py_text) = Some main_py_text \<and>
   ast_parse example_library main_py_text = Some main_py_tree \<and>
   Import [\<lparr>alias_name = ''os'', asname = None\<rparr>] \<in> set (nodes main_py_tree) \<and>
   ImportFrom (Some ''foo'') [\<lparr>alias_name = ''bar'', asname = None\<rparr>] 0 \<in> set (nodes main_py_tree) \<and>
   ''os'' \<in> set (parse_imports_python example_library (text_file main_py_text)) \<and>
   ''foo'' \<in> set (parse_imports_python example_library (text_file main_py_text)) \<and>
   ast_parse example_library ''def (:'' = None \<and>
   parse_imports_python example_library (text_file ''def (:'') = []"
proof -
  have 1: "utf8_text (text_file main_py_text) = Some main_py_text"
    by (simp add: text_file_def)
  have 2: "ast_parse example_library main_py_text = Some main_py_tree"
    by (simp add: example_library_def)
  have 3: "Import [\<lparr>alias_name = ''os'', asname = None\<rparr>] \<in> set (nodes main_py_tree)"
    by (simp add: main_py_tree_def)
  have 4: "ImportFrom (Some ''foo'') [\<lparr>alias_name = ''bar'', asname = None\<rparr>] 0
             \<in> set (nodes main_py_tree)"
    by (simp add: main_py_tree_def)
  have 5: "utf8_text (text_file ''def (:'') = Some ''def (:''"
    by (simp add: text_file_def)
  have 6: "ast_parse example_library ''def (:'' = None"
    by (simp add: example_library_def main_py_text_def)
  note a = python_imports_collected [of "text_file main_py_text" example_library,
      THEN conjunct2, rule_format, OF conjI [OF 1 2]]
  note b = python_imports_collected [of "text_file ''def (:''" example_library,
      THEN conjunct1, rule_format]
  have os: "''os'' \<in> set (parse_imports_python example_library (text_file main_py_text))"
    using a [THEN conjunct1, rule_format, OF conjI [OF 3],
        of "\<lparr>alias_name = ''os'', asname = None\<rparr>"]
    by simp
  have foo: "''foo'' \<in> set (parse_imports_python example_library (text_file main_py_text))"
    using a [THEN conjunct2, THEN conjunct1, rule_format, OF conjI [OF 4]]
    by simp
  have "parse_imports_python example_library (text_file ''def (:'') = []"
    using b 5 6 by simp
  with 1 2 3 4 6 os foo show ?thesis by simp
qed

text \<open>
  C9: two runs of the extraction on a file whose content is the same give the same list,
  element for element, for Python and for JavaScript; nothing but the content of the
  file (and the library functions, which are functions of their arguments) enters the
  result.
\<close>

theorem extraction_depends_on_content_only:
  "utf8_text f = utf8_text g \<Longrightarrow>
   parse_imports_python lib f = parse_imports_python lib g \<and>
   parse_imports_js lib f = parse_imports_js lib g"
  by (simp add: parse_imports_python_def parse_imports_js_def)

theorem extraction_depends_on_content_only_witness:
  "utf8_text (text_file main_py_text)
     = utf8_text \<lparr>fsize = None, utf8_text = Some main_py_text, locale_text = None\<rparr> \<and>
   parse_imports_python example_library (text_file main_py_text)
     = parse_imports_python example_library
         \<lparr>fsize = None, utf8_text = Some main_py_text, locale_text = None\<rparr> \<and>
   parse_imports_js example_library (text_file main_py_text)
     = parse_imports_js example_library
         \<lparr>fsize = None, utf8_text = Some main_py_text, locale_text = None\<rparr> \<and>
   parse_imports_python example_library (text_file main_py_text) = [''os'', ''foo'']"
proof -
  have h: "utf8_text (text_file main_py_text)
     = utf8_text \<lparr>fsize = None, utf8_text = Some main_py_text, locale_text = None\<rparr>"
    by (simp add: text_file_def)
  have v: "parse_imports_python example_library (text_file main_py_text) = [''os'', ''foo'']"
    by (simp add: parse_imports_python_def text_file_def example_library_def main_py_tree_def
        ast_walk_def)
  from extraction_depends_on_content_only [OF h, of example_library] h v
  show ?thesis by simp
qed

section \<open>Claims about the request handler\<close>

lemma startswith_append: "startswith (p @ e) p"
  by (simp add: startswith_def)

lemma get_ai_insights_total:
  "\<exists>s. get_ai_insights env info = Inr s \<and>
       (startswith s ''AI insights unavailable: '' \<or>
        (\<exists>k p. llm_key env = Some k \<and> k \<noteq> [] \<and> new_chat env k = None \<and>
               build_prompt info = Inr p \<and> send_message env k p = Inr s))"
proof (cases "insights_body env info")
  case (Inl e)
  then have "get_ai_insights env info = Inr (''AI insights unavailable: '' @ e)"
    by (simp add: get_ai_insights_def)
  then show ?thesis using startswith_append by blast
next
  case (Inr s)
  then have g: "get_ai_insights env info = Inr s"
    by (simp add: get_ai_insights_def)
  have c: "''AI insights unavailable: API key not configured''
            = ''AI insights unavailable: '' @ ''API key not configured''" by simp
  have "startswith s ''AI insights unavailable: '' \<or>
        (\<exists>k p. llm_key env = Some k \<and> k \<noteq> [] \<and> new_chat env k = None \<and>
               build_prompt info = Inr p \<and> send_message env k p = Inr s)"
  proof (cases "llm_key env")
    case None
    with Inr have "s = ''AI insights unavailable: '' @ ''API key not configured''"
      by (simp add: insights_body_def)
    then show ?thesis using startswith_append by blast
  next
    case (Some k)
    show ?thesis
    proof (cases "k = []")
      case True
      with Inr Some have "s = ''AI insights unavailable: '' @ ''API key not configured''"
        by (simp add: insights_body_def)
      then show ?thesis using startswith_append by blast
    next
      case False
      with Inr Some show ?thesis
        by (auto simp: insights_body_def split: option.splits sum.splits)
    qed
  qed
  with g show ?thesis by blast
qed

lemma pipeline_with_insights:
  assumes "insert_one_error env = None"
  shows "\<exists>a s. run_pipeline lib env url ws = Inr a \<and> ai_insights a = Some s"
proof -
  let ?info = "\<lparr>ri_repo_name = Some (derive_repo_name url),
                 ri_framework = Some (detect_framework lib ws),
                 ri_entry_points = Some (find_entry_points lib ws),
                 ri_file_count = Some (length (fst (analyze_file_structure lib ws))),
                 ri_dependencies = Some (snd (analyze_file_structure lib ws))\<rparr>"
  from get_ai_insights_total [of env ?info] obtain s
    where "get_ai_insights env ?info = Inr s" by blast
  with assms show ?thesis by (simp add: run_pipeline_def Let_def)
qed

text \<open>
  C8: \<open>get_ai_insights\<close> returns a string on every input and in every environment; it
  never lets an exception out. Without an API key the string is the fixed placeholder;
  when building the client or calling the model raises, it is \<open>AI insights unavailable: \<close>
  followed by the message. In every case the string either starts with
  \<open>AI insights unavailable: \<close> or is the answer of a call that succeeded. So a request
  whose clone and database insertion succeed returns a profile with an insight string,
  whatever happens to the call.
\<close>

theorem insights_never_raise:
  "(\<exists>s. get_ai_insights env info = Inr s \<and>
       (startswith s ''AI insights unavailable: '' \<or>
        (\<exists>k p. llm_key env = Some k \<and> k \<noteq> [] \<and> new_chat env k = None \<and>
               build_prompt info = Inr p \<and> send_message env k p = Inr s))) \<and>
   (llm_key env = None \<or> llm_key env = Some [] \<longrightarrow>
      get_ai_insights env info = Inr ''AI insights unavailable: API key not configured'') \<and>
   (\<forall>k e. llm_key env = Some k \<and> k \<noteq> [] \<and> new_chat env k = Some e \<longrightarrow>
      get_ai_insights env info = Inr (''AI insights unavailable: '' @ e)) \<and>
   (\<forall>k p e. llm_key env = Some k \<and> k \<noteq> [] \<and> new_chat env k = None \<and>
        build_prompt info = Inr p \<and> send_message env k p = Inl e \<longrightarrow>
      get_ai_insights env info = Inr (''AI insights unavailable: '' @ e)) \<and>
   (\<forall>d t. mkdtemp env = Inr d \<and> clone_from env url d = Inr t \<and> insert_one_error env = None \<longrightarrow>
      (\<exists>a s. fst (analyze_repository lib env url disk) = Inr a \<and> ai_insights a = Some s))"
proof (intro conjI allI impI)
  show "\<exists>s. get_ai_insights env info = Inr s \<and>
       (startswith s ''AI insights unavailable: '' \<or>
        (\<exists>k p. llm_key env = Some k \<and> k \<noteq> [] \<and> new_chat env k = None \<and>
               build_prompt info = Inr p \<and> send_message env k p = Inr s))"
    by (rule get_ai_insights_total)
next
  assume "llm_key env = None \<or> llm_key env = Some []"
  then show "get_ai_insights env info = Inr ''AI insights unavailable: API key not configured''"
    by (auto simp: get_ai_insights_def insights_body_def)
next
  fix k e
  assume "llm_key env = Some k \<and> k \<noteq> [] \<and> new_chat env k = Some e"
  then show "get_ai_insights env info = Inr (''AI insights unavailable: '' @ e)"
    by (simp add: get_ai_insights_def insights_body_def)
next
  fix k p e
  assume "llm_key env = Some k \<and> k \<noteq> [] \<and> new_chat env k = None \<and>
        build_prompt info = Inr p \<and> send_message env k p = Inl e"
  then show "get_ai_insights env info = Inr (''AI insights unavailable: '' @ e)"
    by (simp add: get_ai_insights_def insights_body_def)
next
  fix d t
  assume a: "mkdtemp env = Inr d \<and> clone_from env url d = Inr t \<and> insert_one_error env = None"
  then have "fst (analyze_repository lib env url disk) = run_pipeline lib env url \<lparr>root = d, tree = t\<rparr>"
    by (simp add: analyze_repository_def)
  with pipeline_with_insights [of env lib url "\<lparr>root = d, tree = t\<rparr>"] a
  show "\<exists>a s. fst (analyze_repository lib env url disk) = Inr a \<and> ai_insights a = Some s"
    by simp
qed

theorem insights_never_raise_witness:
  "llm_key env_ok = Some ''sk-test'' \<and> new_chat env_ok ''sk-test'' = None \<and>
   (\<exists>p. build_prompt example_info = Inr p \<and> send_message env_ok ''sk-test'' p = Inl ''connection refused'') \<and>
   get_ai_insights env_ok example_info = Inr ''AI insights unavailable: connection refused'' \<and>
   (\<exists>a s. fst (analyze_repository example_library env_ok ''https://github.com/o/demo.git'' Map.empty) = Inr a \<and>
          ai_insights a = Some s)"
proof -
  have 1: "llm_key env_ok = Some ''sk-test'' \<and> ''sk-test'' \<noteq> [] \<and> new_chat env_ok ''sk-test'' = None"
    by (simp add: env_ok_def)
  obtain p where 2: "build_prompt example_info = Inr p"
    by (simp add: build_prompt_def item_def example_info_def)
  have 3: "send_message env_ok ''sk-test'' p = Inl ''connection refused''"
    by (simp add: env_ok_def)
  have 4: "mkdtemp env_ok = Inr tmp_root \<and>
           clone_from env_ok ''https://github.com/o/demo.git'' tmp_root = Inr minimal_tree \<and>
           insert_one_error env_ok = None"
    by (simp add: env_ok_def)
  note t = insights_never_raise [of env_ok example_info "''https://github.com/o/demo.git''"
      example_library "Map.empty"]
  from t 1 2 3 have g: "get_ai_insights env_ok example_info
      = Inr (''AI insights unavailable: '' @ ''connection refused'')" by blast
  from t 4 have "\<exists>a s. fst (analyze_repository example_library env_ok
      ''https://github.com/o/demo.git'' Map.empty) = Inr a \<and> ai_insights a = Some s" by blast
  with 1 2 3 g show ?thesis by auto
qed

text \<open>
  C7, as stated: on every exit path the temporary directory is gone when the handler
  returns. In the environment below the clone fails and the recursive deletion raises:
  the handler of line 356 ignores that, the response is the client error, and the
  directory is still on disk.
\<close>

theorem residual_directory_counterexample:
  "fst (analyze_repository example_library env_stuck ''invalid-url'' Map.empty)
     = Inl (HTTPException 400 ''Failed to clone repository: repository not found'') \<and>
   snd (analyze_repository example_library env_stuck ''invalid-url'' Map.empty) tmp_root
     = Some (Dir [])"
  by (simp add: analyze_repository_def cleanup_def env_stuck_def env_no_repo_def env_ok_def)

text \<open>
  C7, amended: when the clone fails the response is \<open>HTTPException 400\<close> with the detail
  \<open>Failed to clone repository: \<close> and the message, whether the cleanup succeeds or not. On
  this and on every other exit path after the directory was created the handler calls
  the recursive deletion; the directory is gone on return whenever that deletion
  succeeds, and a deletion that raises is ignored and leaves what it left.
\<close>

theorem clone_failure_is_client_error:
  "(\<forall>d e left. mkdtemp env = Inr d \<and> clone_from env url d = Inl (e, left) \<longrightarrow>
      fst (analyze_repository lib env url disk)
        = Inl (HTTPException 400 (''Failed to clone repository: '' @ e)) \<and>
      (rmtree env d left = None \<longrightarrow> snd (analyze_repository lib env url disk) d = None) \<and>
      (\<forall>rest. rmtree env d left = Some rest \<longrightarrow>
         snd (analyze_repository lib env url disk) d = Some rest)) \<and>
   (\<forall>d. mkdtemp env = Inr d \<and> (\<forall>t. rmtree env d t = None) \<longrightarrow>
      snd (analyze_repository lib env url disk) d = None)"
proof (intro conjI allI impI)
  fix d e left
  assume "mkdtemp env = Inr d \<and> clone_from env url d = Inl (e, left)"
  then show "fst (analyze_repository lib env url disk)
        = Inl (HTTPException 400 (''Failed to clone repository: '' @ e))"
    by (simp add: analyze_repository_def)
next
  fix d e left
  assume "mkdtemp env = Inr d \<and> clone_from env url d = Inl (e, left)"
    and "rmtree env d left = None"
  then show "snd (analyze_repository lib env url disk) d = None"
    by (simp add: analyze_repository_def cleanup_def)
next
  fix d e left rest
  assume "mkdtemp env = Inr d \<and> clone_from env url d = Inl (e, left)"
    and "rmtree env d left = Some rest"
  then show "snd (analyze_repository lib env url disk) d = Some rest"
    by (simp add: analyze_repository_def cleanup_def)
next
  fix d
  assume a: "mkdtemp env = Inr d \<and> (\<forall>t. rmtree env d t = None)"
  show "snd (analyze_repository lib env url disk) d = None"
  proof (cases "clone_from env url d")
    case (Inl f)
    with a show ?thesis
      by (cases f) (simp add: analyze_repository_def cleanup_def)
  next
    case (Inr t)
    with a show ?thesis by (simp add: analyze_repository_def cleanup_def)
  qed
qed

theorem clone_failure_is_client_error_witness:
  "mkdtemp env_no_repo = Inr tmp_root \<and>
   clone_from env_no_repo ''invalid-url'' tmp_root = Inl (''repository not found'', Dir []) \<and>
   rmtree env_no_repo tmp_root (Dir []) = None \<and>
   fst (analyze_repository example_library env_no_repo ''invalid-url'' Map.empty)
     = Inl (HTTPException 400 ''Failed to clone repository: repository not found'') \<and>
   snd (analyze_repository example_library env_no_repo ''invalid-url'' Map.empty) tmp_root = None"
proof -
  have 1: "mkdtemp env_no_repo = Inr tmp_root \<and>
     clone_from env_no_repo ''invalid-url'' tmp_root = Inl (''repository not found'', Dir [])"
    by (simp add: env_no_repo_def env_ok_def)
  have 2: "rmtree env_no_repo tmp_root (Dir []) = None"
    by (simp add: env_no_repo_def env_ok_def)
  note t = clone_failure_is_client_error [of env_no_repo "''invalid-url''" example_library
      "Map.empty", THEN conjunct1, rule_format, OF 1]
  from t 2 have "fst (analyze_repository example_library env_no_repo ''invalid-url'' Map.empty)
     = Inl (HTTPException 400 (''Failed to clone repository: '' @ ''repository not found'')) \<and>
   snd (analyze_repository example_library env_no_repo ''invalid-url'' Map.empty) tmp_root = None"
    by blast
  with 1 2 show ?thesis by simp
qed

section \<open>Claims about entry points\<close>

lemma foldl_append_filter:
  "foldl (\<lambda>eps e. if P e then eps @ [e] else eps) acc xs = acc @ filter P xs"
  by (induction xs arbitrary: acc) simp_all

lemma root_loop_catalog: "root_loop ws eps = eps @ root_catalog ws"
  by (simp add: root_loop_def root_catalog_def foldl_append_filter)

lemma foldl_append_fresh:
  assumes "\<forall>e\<in>set xs. \<forall>y\<in>set xs. f y \<noteq> e"
  shows "foldl (\<lambda>eps e. if Q e \<and> e \<notin> set eps then eps @ [f e] else eps) acc xs
         = acc @ map f (filter (\<lambda>e. Q e \<and> e \<notin> set acc) xs)"
  using assms
proof (induction xs arbitrary: acc)
  case Nil
  show ?case by simp
next
  case (Cons x xs)
  have tl: "\<forall>e\<in>set xs. \<forall>y\<in>set xs. f y \<noteq> e" using Cons.prems by simp
  have fresh: "\<forall>e\<in>set xs. f x \<noteq> e" using Cons.prems by simp
  show ?case
  proof (cases "Q x \<and> x \<notin> set acc")
    case True
    have "filter (\<lambda>e. Q e \<and> e \<notin> set (acc @ [f x])) xs = filter (\<lambda>e. Q e \<and> e \<notin> set acc) xs"
      using fresh by (intro filter_cong) auto
    with True Cons.IH [OF tl, of "acc @ [f x]"] show ?thesis by simp
  next
    case False
    with Cons.IH [OF tl, of acc] show ?thesis by auto
  qed
qed

lemma catalog_plain: "\<forall>e\<in>set common_entries. CHR '' '' \<notin> set e \<and> CHR ''/'' \<notin> set e"
  by (simp add: common_entries_def)

lemma src_prefixed_fresh: "\<forall>e\<in>set common_entries. \<forall>y\<in>set common_entries. ''src/'' @ y \<noteq> e"
proof (intro ballI notI)
  fix e y
  assume "e \<in> set common_entries" and "''src/'' @ y = e"
  then have "CHR ''/'' \<in> set e" and "CHR ''/'' \<notin> set e"
    using catalog_plain by auto
  then show False by simp
qed

lemma script_step_object:
  "script_step lib (JObj scripts) name label eps
     = Some (eps @ (case scripts name of None \<Rightarrow> [] | Some v \<Rightarrow> [label @ format_value lib v]))"
  by (simp add: script_step_def split: option.split)

lemma script_step_other:
  assumes "\<And>m. scripts \<noteq> JObj m"
  shows "script_step lib scripts name label eps = None \<or>
         script_step lib scripts name label eps = Some eps"
  using assms by (cases scripts) (auto simp: script_step_def split: option.splits bool.splits)

lemma scripts_block_manifest: "scripts_block lib ws eps = eps @ manifest_scripts lib ws"
proof (cases "Option.bind (read_default ws [''package.json'']) (json_load lib)")
  case None
  then show ?thesis by (simp add: scripts_block_def manifest_scripts_def)
next
  case (Some data)
  then have ex: "exists ws [''package.json'']"
    by (auto simp: exists_def read_default_def split: option.splits Option.bind_splits)
  show ?thesis
  proof (cases data)
    case (JObj m)
    show ?thesis
    proof (cases "m ''scripts''")
      case None
      with Some JObj ex show ?thesis
        by (simp add: scripts_block_def manifest_scripts_def script_step_object)
    next
      case inner: (Some scripts)
      show ?thesis
      proof (cases "\<exists>sm. scripts = JObj sm")
        case True
        then obtain sm where "scripts = JObj sm" ..
        with Some JObj ex inner show ?thesis
          by (simp add: scripts_block_def manifest_scripts_def script_step_object)
      next
        case False
        then have no: "\<And>sm. scripts \<noteq> JObj sm" by blast
        have m: "manifest_scripts lib ws = []"
          using Some JObj inner False
          by (cases scripts) (simp_all add: manifest_scripts_def)
        have b: "scripts_block lib ws eps = eps"
          using script_step_other [OF no, of lib "''start''" "''npm start: ''" eps]
            script_step_other [OF no, of lib "''dev''" "''npm run dev: ''" eps]
            Some JObj inner ex
          by (auto simp: scripts_block_def)
        from m b show ?thesis by simp
      qed
    qed
  qed (use Some ex in \<open>simp_all add: scripts_block_def manifest_scripts_def\<close>)
qed

lemma manifest_scripts_spaced: "\<forall>s\<in>set (manifest_scripts lib ws). CHR '' '' \<in> set s"
  by (auto simp: manifest_scripts_def split: option.splits json.splits)

lemma lookup_entry_parent:
  "lookup_entry es s (a # p) = Some y \<Longrightarrow> \<exists>z. lookup_entry es s [] = Some z"
  by (induction es) (auto split: if_splits)

lemma exists_src_child: "exists ws [''src'', entry] \<Longrightarrow> exists ws [''src'']"
  unfolding exists_def
  by (cases "tree ws") (auto dest: lookup_entry_parent)

lemma src_loop_nested:
  assumes "\<forall>s\<in>set extra. CHR '' '' \<in> set s"
  shows "src_loop ws (root_catalog ws @ extra) = root_catalog ws @ extra @ nested_catalog ws"
proof -
  let ?acc = "root_catalog ws @ extra"
  have same: "filter (\<lambda>e. exists ws [''src'', e] \<and> e \<notin> set ?acc) common_entries
            = filter (\<lambda>e. exists ws [''src'', e] \<and> e \<notin> set (root_catalog ws)) common_entries"
    using assms catalog_plain by (intro filter_cong) auto
  show ?thesis
  proof (cases "exists ws [''src'']")
    case True
    have "src_loop ws ?acc
          = foldl (\<lambda>eps entry.
                    if exists ws [''src'', entry] \<and> entry \<notin> set eps
                    then eps @ [''src/'' @ entry] else eps) ?acc common_entries"
      by (simp only: src_loop_def True if_True)
    also have "\<dots> = ?acc @ map (\<lambda>entry. ''src/'' @ entry)
                 (filter (\<lambda>e. exists ws [''src'', e] \<and> e \<notin> set ?acc) common_entries)"
      by (rule foldl_append_fresh [OF src_prefixed_fresh])
    also have "\<dots> = ?acc @ nested_catalog ws"
      by (simp only: same nested_catalog_def)
    finally show ?thesis by simp
  next
    case False
    then have "\<And>e. \<not> exists ws [''src'', e]" using exists_src_child by blast
    then have "nested_catalog ws = []" by (simp add: nested_catalog_def)
    with False show ?thesis by (simp add: src_loop_def)
  qed
qed

text \<open>
  C5: the list returned by \<open>find_entry_points\<close> is the catalog names found at the root in
  catalog order, then the \<open>start\<close> and \<open>dev\<close> scripts of \<open>package.json\<close> as
  \<open>npm start: <command>\<close> and \<open>npm run dev: <command>\<close>, then the catalog names found under
  \<open>src\<close> with the prefix \<open>src/\<close>, leaving out those already found at the root.
\<close>

theorem entry_points_order:
  "find_entry_points lib ws = root_catalog ws @ manifest_scripts lib ws @ nested_catalog ws"
  by (simp add: find_entry_points_def root_loop_catalog scripts_block_manifest
      src_loop_nested [OF manifest_scripts_spaced])

theorem entry_points_order_witness:
  "root_catalog ws_entries = [''index.js''] \<and>
   manifest_scripts example_library ws_entries = [''npm start: node index.js'', ''npm run dev: vite''] \<and>
   nested_catalog ws_entries = [''src/App.js''] \<and>
   find_entry_points example_library ws_entries
     = [''index.js'', ''npm start: node index.js'', ''npm run dev: vite'', ''src/App.js'']"
proof -
  have r: "root_catalog ws_entries = [''index.js'']"
    by (simp add: root_catalog_def common_entries_def ws_entries_def exists_def)
  have m: "manifest_scripts example_library ws_entries
           = [''npm start: node index.js'', ''npm run dev: vite'']"
    by (simp add: manifest_scripts_def ws_entries_def read_default_def text_file_def
        format_value_def eval_lib)
  have n: "nested_catalog ws_entries = [''src/App.js'']"
    unfolding nested_catalog_def r
    by (simp add: common_entries_def ws_entries_def exists_def)
  from entry_points_order [of example_library ws_entries] r m n show ?thesis by simp
qed

section \<open>Claims about the tree walk\<close>

lemma walked_snoc: "walked lib rt (xs @ [x]) = visit lib rt (walked lib rt xs) x"
  by (simp add: walked_def)

lemma analyze_walked:
  "analyze_file_structure lib ws = walked lib (root ws) (rglob glob_all [] (tree ws))"
  by (simp add: analyze_file_structure_def walked_def)

lemma visit_cases:
  obtains (skip) "visit lib rt st x = st"
  | (keep) rel f where "x = (rel, File f)"
      and "\<not> is_hidden (rt @ rel)" and "\<not> is_ignored (rt @ rel)"
      and "node_imports (make_node lib (length (fst st)) rel f) = []"
      and "visit lib rt st x = (fst st @ [make_node lib (length (fst st)) rel f], snd st)"
  | (dep) rel f where "x = (rel, File f)"
      and "\<not> is_hidden (rt @ rel)" and "\<not> is_ignored (rt @ rel)"
      and "node_imports (make_node lib (length (fst st)) rel f) \<noteq> []"
      and "visit lib rt st x =
             (fst st @ [make_node lib (length (fst st)) rel f],
              AList.update (node_path (make_node lib (length (fst st)) rel f))
                (node_imports (make_node lib (length (fst st)) rel f)) (snd st))"
proof (cases st)
  case (Pair files deps)
  show ?thesis
  proof (cases x)
    case xp: (Pair rel node)
    show ?thesis
    proof (cases node)
      case (Dir es)
      with Pair xp show ?thesis using skip by simp
    next
      case (File f)
      show ?thesis
      proof (cases "is_hidden (rt @ rel) \<or> is_ignored (rt @ rel)")
        case True
        with Pair xp File show ?thesis using skip by auto
      next
        case False
        show ?thesis
        proof (cases "node_imports (make_node lib (length files) rel f) = []")
          case True
          with Pair xp File False show ?thesis using keep [of rel f] by (simp add: Let_def)
        next
          case nonempty: False
          with Pair xp File False show ?thesis using dep [of rel f] by (simp add: Let_def)
        qed
      qed
    qed
  qed
qed

lemma walked_made:
  "n \<in> set (fst (walked lib rt xs)) \<Longrightarrow>
   \<exists>rel f k. (rel, File f) \<in> set xs \<and> n = make_node lib k rel f"
proof (induction xs arbitrary: n rule: rev_induct)
  case Nil
  then show ?case by (simp add: walked_def)
next
  case (snoc x xs)
  show ?case
  proof (cases rule: visit_cases [of lib rt "walked lib rt xs" x])
    case skip
    with snoc show ?thesis by (fastforce simp: walked_snoc)
  next
    case (keep rel f)
    with snoc.prems have "n \<in> set (fst (walked lib rt xs)) \<or>
        n = make_node lib (length (fst (walked lib rt xs))) rel f"
      by (auto simp: walked_snoc)
    with snoc.IH keep(1) show ?thesis by fastforce
  next
    case (dep rel f)
    with snoc.prems have "n \<in> set (fst (walked lib rt xs)) \<or>
        n = make_node lib (length (fst (walked lib rt xs))) rel f"
      by (auto simp: walked_snoc)
    with snoc.IH dep(1) show ?thesis by fastforce
  qed
qed

lemma walked_keys:
  "fst ` set (snd (walked lib rt xs))
     = {node_path n | n. n \<in> set (fst (walked lib rt xs)) \<and> node_imports n \<noteq> []}"
proof (induction xs rule: rev_induct)
  case Nil
  show ?case by (simp add: walked_def)
next
  case (snoc x xs)
  show ?case
  proof (cases rule: visit_cases [of lib rt "walked lib rt xs" x])
    case skip
    with snoc show ?thesis by (simp add: walked_snoc)
  next
    case (keep rel f)
    with snoc show ?thesis by (auto simp: walked_snoc)
  next
    case (dep rel f)
    with snoc show ?thesis by (auto simp: walked_snoc AList.dom_update)
  qed
qed

lemma walked_values:
  "map_of (snd (walked lib rt xs)) k = Some v \<Longrightarrow>
   \<exists>n\<in>set (fst (walked lib rt xs)). node_path n = k \<and> node_imports n = v"
proof (induction xs arbitrary: k v rule: rev_induct)
  case Nil
  then show ?case by (simp add: walked_def)
next
  case (snoc x xs)
  show ?case
  proof (cases rule: visit_cases [of lib rt "walked lib rt xs" x])
    case skip
    with snoc show ?thesis by (simp add: walked_snoc)
  next
    case (keep rel f)
    with snoc.prems have "map_of (snd (walked lib rt xs)) k = Some v"
      by (simp add: walked_snoc)
    from snoc.IH [OF this] keep show ?thesis by (auto simp: walked_snoc)
  next
    case (dep rel f)
    let ?n = "make_node lib (length (fst (walked lib rt xs))) rel f"
    show ?thesis
    proof (cases "k = node_path ?n")
      case True
      with snoc.prems dep have "v = node_imports ?n"
        by (simp add: walked_snoc AList.update_conv')
      with True dep show ?thesis by (auto simp: walked_snoc)
    next
      case False
      with snoc.prems dep have "map_of (snd (walked lib rt xs)) k = Some v"
        by (simp add: walked_snoc AList.update_conv')
      from snoc.IH [OF this] dep show ?thesis by (auto simp: walked_snoc)
    qed
  qed
qed

lemma walked_distinct: "distinct (map fst (snd (walked lib rt xs)))"
proof (induction xs rule: rev_induct)
  case Nil
  show ?case by (simp add: walked_def)
next
  case (snoc x xs)
  show ?case
  proof (cases rule: visit_cases [of lib rt "walked lib rt xs" x])
    case skip
    with snoc show ?thesis by (simp add: walked_snoc)
  next
    case (keep rel f)
    with snoc show ?thesis by (simp add: walked_snoc)
  next
    case (dep rel f)
    with snoc show ?thesis by (simp add: walked_snoc AList.distinct_update)
  qed
qed


lemma endswith_iff: "endswith s p \<longleftrightarrow> (\<exists>pre. s = pre @ p)"
proof
  assume "endswith s p"
  then have "s = take (length s - length p) s @ p"
    unfolding endswith_def by (metis append_take_drop_id)
  then show "\<exists>pre. s = pre @ p" ..
next
  assume "\<exists>pre. s = pre @ p"
  then show "endswith s p" by (auto simp: endswith_def)
qed

lemma endswith_trans: "endswith a b \<Longrightarrow> endswith b c \<Longrightarrow> endswith a c"
  unfolding endswith_iff by (metis append.assoc)

lemma endswith_clash:
  assumes "endswith k a" and "endswith k b"
  shows "endswith a b \<or> endswith b a"
proof -
  from assms obtain p q where "k = p @ a" and "k = q @ b"
    unfolding endswith_iff by blast
  then have "p @ a = q @ b" by simp
  then show ?thesis
    unfolding endswith_iff append_eq_append_conv2 by blast
qed

lemma last_segment_split:
  assumes "c \<in> set s"
  shows "\<exists>pre. s = pre @ c # last_segment c s"
proof -
  let ?P = "\<lambda>x. x \<noteq> c"
  from assms have "dropWhile ?P (rev s) \<noteq> []"
    by (auto simp: dropWhile_eq_Nil_conv)
  then obtain h t where d: "dropWhile ?P (rev s) = h # t"
    by (cases "dropWhile ?P (rev s)") auto
  then have "\<not> ?P h" using hd_dropWhile [of ?P "rev s"] by auto
  then have h: "h = c" by simp
  have "rev s = takeWhile ?P (rev s) @ dropWhile ?P (rev s)" by simp
  with d h have "rev s = takeWhile ?P (rev s) @ c # t" by simp
  then have "rev (rev s) = rev (takeWhile ?P (rev s) @ c # t)" by (rule arg_cong)
  then have "s = rev t @ c # last_segment c s"
    by (simp add: last_segment_def)
  then show ?thesis ..
qed

lemma suffix_ends: "suffix name \<noteq> [] \<Longrightarrow> endswith name (suffix name)"
proof -
  assume ne: "suffix name \<noteq> []"
  then have c: "CHR ''.'' \<in> set name"
    and v: "suffix name = CHR ''.'' # last_segment (CHR ''.'') name"
    by (auto simp: suffix_def Let_def split: if_splits)
  from last_segment_split [OF c] v show ?thesis
    unfolding endswith_iff by simp
qed

lemma join_ends: "rel \<noteq> [] \<Longrightarrow> endswith (join sep rel) (last rel)"
proof (induction sep rel rule: join.induct)
  case (1 sep)
  then show ?case by simp
next
  case (2 sep x)
  show ?case by (simp add: endswith_def)
next
  case (3 sep x y ys)
  then have "endswith (join sep (y # ys)) (last (y # ys))" by simp
  then obtain pre where "join sep (y # ys) = pre @ last (y # ys)"
    unfolding endswith_iff ..
  then have "join sep (x # y # ys) = (x @ sep @ pre) @ last (x # y # ys)" by simp
  then show ?case unfolding endswith_iff ..
qed

lemma path_ends_with_suffix:
  assumes "suffix (path_name rel) \<noteq> []"
  shows "endswith (join ''/'' rel) (suffix (path_name rel))"
proof -
  have ne: "rel \<noteq> []"
  proof
    assume "rel = []"
    then have "suffix (path_name rel) = []" by (simp add: path_name_def suffix_def)
    with assms show False by simp
  qed
  then have "endswith (join ''/'' rel) (path_name rel)"
    using join_ends [of rel "''/''"] by (simp add: path_name_def)
  moreover have "endswith (path_name rel) (suffix (path_name rel))"
    using assms by (rule suffix_ends)
  ultimately show ?thesis by (rule endswith_trans)
qed

lemma node_path_made: "node_path (make_node lib k rel f) = join ''/'' rel"
  by (simp add: make_node_def Let_def)

lemma imports_need_extension:
  assumes "node_imports (make_node lib k rel f) \<noteq> []"
  shows "suffix (path_name rel) \<in> {''.py'', ''.js'', ''.jsx'', ''.ts'', ''.tsx''}"
proof (rule ccontr)
  assume "suffix (path_name rel) \<notin> {''.py'', ''.js'', ''.jsx'', ''.ts'', ''.tsx''}"
  then have "extract_imports lib (suffix (path_name rel)) f = []"
    by (simp add: extract_imports_def)
  with assms show False by (simp add: make_node_def Let_def)
qed

lemma go_java_node:
  assumes "node_type (make_node lib k rel f) = ''.go'' \<or> node_type (make_node lib k rel f) = ''.java''"
  shows "suffix (path_name rel) = node_type (make_node lib k rel f) \<and>
         node_imports (make_node lib k rel f) = []"
proof -
  let ?e = "suffix (path_name rel)"
  have t: "node_type (make_node lib k rel f) = (if ?e \<noteq> [] then ?e else ''file'')"
    by (simp add: make_node_def Let_def)
  with assms have e: "?e = ''.go'' \<or> ?e = ''.java''"
    by (cases "?e = []") auto
  then have "extract_imports lib ?e f = []"
    by (auto simp: extract_imports_def code_extensions_def)
  then have "node_imports (make_node lib k rel f) = []"
    by (simp add: make_node_def Let_def)
  with t e show ?thesis by auto
qed

lemma extensions_apart:
  "\<forall>a\<in>{''.go'', ''.java''}. \<forall>b\<in>{''.py'', ''.js'', ''.jsx'', ''.ts'', ''.tsx''}.
     \<not> endswith a b \<and> \<not> endswith b a"
  by (simp add: endswith_def)

text \<open>
  C10: \<open>.go\<close> and \<open>.java\<close> are in the set of code extensions, and no extraction is
  dispatched for them: every file node of that type has an empty import list, and its
  path is not a key of the dependency map.
\<close>

theorem go_java_files_have_no_imports:
  "''.go'' \<in> set code_extensions \<and> ''.java'' \<in> set code_extensions \<and>
   (\<forall>n\<in>set (fst (analyze_file_structure lib ws)).
      node_type n = ''.go'' \<or> node_type n = ''.java'' \<longrightarrow>
      node_imports n = [] \<and>
      map_of (snd (analyze_file_structure lib ws)) (node_path n) = None)"
proof (intro conjI ballI impI)
  show "''.go'' \<in> set code_extensions" by (simp add: code_extensions_def)
  show "''.java'' \<in> set code_extensions" by (simp add: code_extensions_def)
next
  fix n
  assume n: "n \<in> set (fst (analyze_file_structure lib ws))"
    and t: "node_type n = ''.go'' \<or> node_type n = ''.java''"
  let ?xs = "rglob glob_all [] (tree ws)"
  from n obtain rel f k where m: "n = make_node lib k rel f"
    using walked_made [of n lib "root ws" ?xs] by (auto simp: analyze_walked)
  from go_java_node [of lib k rel f] t m
  have a: "suffix (path_name rel) = node_type n" and i: "node_imports n = []" by auto
  from i show "node_imports n = []" .
  show "map_of (snd (analyze_file_structure lib ws)) (node_path n) = None"
  proof (rule ccontr)
    assume "map_of (snd (analyze_file_structure lib ws)) (node_path n) \<noteq> None"
    then have "node_path n \<in> fst ` set (snd (walked lib (root ws) ?xs))"
      by (simp add: analyze_walked map_of_eq_None_iff)
    then obtain n' where n': "n' \<in> set (fst (walked lib (root ws) ?xs))"
      and p: "node_path n' = node_path n" and ne: "node_imports n' \<noteq> []"
      unfolding walked_keys by auto
    from walked_made [OF n'] obtain rel' f' k' where m': "n' = make_node lib k' rel' f'"
      by blast
    from imports_need_extension [of lib k' rel' f'] ne m'
    have b: "suffix (path_name rel') \<in> {''.py'', ''.js'', ''.jsx'', ''.ts'', ''.tsx''}" by simp
    then have "suffix (path_name rel') \<noteq> []" by auto
    then have eb: "endswith (node_path n) (suffix (path_name rel'))"
      using path_ends_with_suffix [of rel'] p m' by (simp add: node_path_made)
    from a t have a2: "suffix (path_name rel) \<in> {''.go'', ''.java''}" by auto
    then have "suffix (path_name rel) \<noteq> []" by auto
    then have ea: "endswith (node_path n) (suffix (path_name rel))"
      using path_ends_with_suffix [of rel] m by (simp add: node_path_made)
    from endswith_clash [OF ea eb] extensions_apart a2 b show False by blast
  qed
qed


lemma go_walk:
  "analyze_file_structure example_library ws_go =
     ([\<lparr>node_id = ''file-0'', node_name = ''main.go'', node_path = ''main.go'',
        node_type = ''.go'', node_imports = [], node_size = 12\<rparr>,
       \<lparr>node_id = ''file-1'', node_name = ''main.py'', node_path = ''main.py'',
        node_type = ''.py'', node_imports = [''os'', ''foo''], node_size = 29\<rparr>],
      [(''main.py'', [''os'', ''foo''])])"
  by (simp add: ws_go_def tmp_root_def eval_walk eval_lib)

theorem go_java_files_have_no_imports_witness:
  "\<lparr>node_id = ''file-0'', node_name = ''main.go'', node_path = ''main.go'',
     node_type = ''.go'', node_imports = [], node_size = 12\<rparr>
     \<in> set (fst (analyze_file_structure example_library ws_go)) \<and>
   map_of (snd (analyze_file_structure example_library ws_go)) ''main.go'' = None"
proof -
  let ?n = "\<lparr>node_id = ''file-0'', node_name = ''main.go'', node_path = ''main.go'',
     node_type = ''.go'', node_imports = [], node_size = 12\<rparr>"
  have mem: "?n \<in> set (fst (analyze_file_structure example_library ws_go))"
    by (simp add: go_walk)
  have ty: "node_type ?n = ''.go'' \<or> node_type ?n = ''.java''" by simp
  from go_java_files_have_no_imports [of example_library ws_go, THEN conjunct2, THEN conjunct2,
      rule_format, OF mem ty]
  have "map_of (snd (analyze_file_structure example_library ws_go)) (node_path ?n) = None"
    by (rule conjunct2)
  with mem show ?thesis by simp
qed

lemma well_formed_member:
  "well_formed_entries es \<Longrightarrow> (n, c) \<in> set es \<Longrightarrow> CHR ''/'' \<notin> set n \<and> well_formed c"
  by (induction es) auto

lemma lookup_entry_distinct:
  "distinct (map fst es) \<Longrightarrow> (n, c) \<in> set es \<Longrightarrow> lookup_entry es n rel = lookup c rel"
  by (induction es) (auto simp: rev_image_eqI)

lemma lookup_append:
  shows "lookup t (a @ b) = Option.bind (lookup t a) (\<lambda>x. lookup x b)"
    and "lookup_entry es s (a @ b) = Option.bind (lookup_entry es s a) (\<lambda>x. lookup x b)"
  by (induction t a and es s a rule: lookup_lookup_entry.induct) simp_all

lemma iterate_lookup:
  shows "well_formed t \<Longrightarrow> (d, es') \<in> set (iterate_directories p t) \<Longrightarrow>
         \<exists>rel. d = p @ rel \<and> lookup t rel = Some (Dir es') \<and>
               (\<forall>s\<in>set rel. CHR ''/'' \<notin> set s) \<and> well_formed (Dir es')"
    and "well_formed_entries es \<Longrightarrow> (d, es') \<in> set (iterate_entries p es) \<Longrightarrow>
         \<exists>n c rel. (n, c) \<in> set es \<and> d = p @ n # rel \<and> lookup c rel = Some (Dir es') \<and>
               (\<forall>s\<in>set (n # rel). CHR ''/'' \<notin> set s) \<and> well_formed (Dir es')"
proof (induction p t and p es arbitrary: d es' and d es'
    rule: iterate_directories_iterate_entries.induct)
  case (1 p f)
  then show ?case by simp
next
  case (2 p es)
  from "2.prems" have wf: "well_formed_entries es" and di: "distinct (map fst es)" by auto
  from "2.prems" consider "d = p \<and> es' = es" | "(d, es') \<in> set (iterate_entries p es)"
    by auto
  then show ?case
  proof cases
    case 1
    with "2.prems"(1) have "d = p @ [] \<and> lookup (Dir es) [] = Some (Dir es') \<and>
        (\<forall>s\<in>set []. CHR ''/'' \<notin> set s) \<and> well_formed (Dir es')" by simp
    then show ?thesis by blast
  next
    case 2
    from "2.IH" [OF wf 2] obtain n c rel where m: "(n, c) \<in> set es"
      and d: "d = p @ n # rel" and l: "lookup c rel = Some (Dir es')"
      and s: "\<forall>s\<in>set (n # rel). CHR ''/'' \<notin> set s" and w: "well_formed (Dir es')"
      by blast
    from lookup_entry_distinct [OF di m] l have "lookup (Dir es) (n # rel) = Some (Dir es')"
      by simp
    with d s w show ?thesis by blast
  qed
next
  case (3 p)
  then show ?case by simp
next
  case (4 p n c es)
  from "4.prems" have sl: "CHR ''/'' \<notin> set n" and wc: "well_formed c"
    and we: "well_formed_entries es" by auto
  from "4.prems" consider "(d, es') \<in> set (iterate_directories (p @ [n]) c)"
    | "(d, es') \<in> set (iterate_entries p es)" by auto
  then show ?case
  proof cases
    case 1
    from "4.IH"(1) [OF wc 1] obtain rel where "d = (p @ [n]) @ rel"
      and "lookup c rel = Some (Dir es')" and "\<forall>s\<in>set rel. CHR ''/'' \<notin> set s"
      and "well_formed (Dir es')" by blast
    with sl have "(n, c) \<in> set ((n, c) # es) \<and> d = p @ n # rel \<and>
        lookup c rel = Some (Dir es') \<and> (\<forall>s\<in>set (n # rel). CHR ''/'' \<notin> set s) \<and>
        well_formed (Dir es')" by simp
    then show ?thesis by blast
  next
    case 2
    from "4.IH"(2) [OF we 2] obtain n' c' rel where "(n', c') \<in> set es"
      and "d = p @ n' # rel" and "lookup c' rel = Some (Dir es')"
      and "\<forall>s\<in>set (n' # rel). CHR ''/'' \<notin> set s" and "well_formed (Dir es')" by blast
    then have "(n', c') \<in> set ((n, c) # es) \<and> d = p @ n' # rel \<and>
        lookup c' rel = Some (Dir es') \<and> (\<forall>s\<in>set (n' # rel). CHR ''/'' \<notin> set s) \<and>
        well_formed (Dir es')" by simp
    then show ?thesis by blast
  qed
qed

lemma rglob_lookup:
  assumes "well_formed t" and "(q, c) \<in> set (rglob m [] t)"
  shows "q \<noteq> [] \<and> lookup t q = Some c \<and> (\<forall>s\<in>set q. CHR ''/'' \<notin> set s)"
proof -
  from assms(2) obtain d es' n where i: "(d, es') \<in> set (iterate_directories [] t)"
    and e: "(n, c) \<in> set es'" and q: "q = d @ [n]"
    by (auto simp: rglob_def select_children_def)
  from iterate_lookup(1) [OF assms(1) i] have l: "lookup t d = Some (Dir es')"
    and s: "\<forall>s\<in>set d. CHR ''/'' \<notin> set s" and w: "well_formed (Dir es')" by auto
  from w have di: "distinct (map fst es')" and we: "well_formed_entries es'" by auto
  have "lookup t (d @ [n]) = lookup_entry es' n []"
    by (simp add: lookup_append(1) l)
  also have "\<dots> = Some c" using lookup_entry_distinct [OF di e, of "[]"] by simp
  finally have "lookup t q = Some c" using q by simp
  moreover have "CHR ''/'' \<notin> set n" using well_formed_member [OF we e] by simp
  ultimately show ?thesis using q s by auto
qed

lemma slash_split:
  assumes "CHR ''/'' \<notin> set x" and "CHR ''/'' \<notin> set y"
    and "x @ CHR ''/'' # r = y @ CHR ''/'' # s"
  shows "x = y \<and> r = s"
  using assms
proof (induction x arbitrary: y)
  case Nil
  then show ?case by (cases y) auto
next
  case (Cons a x)
  then show ?case by (cases y) auto
qed

lemma join_slash_inj:
  assumes "ps \<noteq> []" and "qs \<noteq> []"
    and "\<forall>s\<in>set ps. CHR ''/'' \<notin> set s" and "\<forall>s\<in>set qs. CHR ''/'' \<notin> set s"
    and "join ''/'' ps = join ''/'' qs"
  shows "ps = qs"
  using assms
proof (induction ps arbitrary: qs)
  case Nil
  then show ?case by simp
next
  case (Cons x ps)
  from Cons.prems(2) obtain z zs where qs: "qs = z # zs" by (cases qs) auto
  show ?case
  proof (cases ps)
    case Nil
    show ?thesis
    proof (cases zs)
      case zn: Nil
      with Cons.prems Nil qs show ?thesis by simp
    next
      case (Cons z' zs')
      with Cons.prems(5) Nil qs have "x = z @ CHR ''/'' # join ''/'' (z' # zs')" by simp
      then have "CHR ''/'' \<in> set x" by simp
      with Cons.prems(3) show ?thesis by simp
    qed
  next
    case pc: (Cons y ys)
    show ?thesis
    proof (cases zs)
      case Nil
      with Cons.prems(5) pc qs have "z = x @ CHR ''/'' # join ''/'' (y # ys)" by simp
      then have "CHR ''/'' \<in> set z" by simp
      with Cons.prems(4) qs show ?thesis by simp
    next
      case zc: (Cons z' zs')
      from Cons.prems(5) pc qs zc
      have "x @ CHR ''/'' # join ''/'' (y # ys) = z @ CHR ''/'' # join ''/'' (z' # zs')"
        by simp
      moreover have "CHR ''/'' \<notin> set x" and "CHR ''/'' \<notin> set z"
        using Cons.prems(3,4) qs by auto
      ultimately have xz: "x = z" and j: "join ''/'' (y # ys) = join ''/'' (z' # zs')"
        using slash_split by blast+
      have "ps = zs"
      proof (rule Cons.IH)
        show "ps \<noteq> []" using pc by simp
        show "zs \<noteq> []" using zc by simp
        show "\<forall>s\<in>set ps. CHR ''/'' \<notin> set s" using Cons.prems(3) by simp
        show "\<forall>s\<in>set zs. CHR ''/'' \<notin> set s" using Cons.prems(4) qs by simp
        show "join ''/'' ps = join ''/'' zs" using j pc zc by simp
      qed
      with xz qs show ?thesis by simp
    qed
  qed
qed

lemma imports_made: "node_imports (make_node lib k rel f) = node_imports (make_node lib k' rel f)"
  by (simp add: make_node_def Let_def)

lemma path_decides_imports:
  assumes wf: "well_formed (tree ws)"
    and n: "n \<in> set (fst (analyze_file_structure lib ws))"
    and n': "n' \<in> set (fst (analyze_file_structure lib ws))"
    and p: "node_path n = node_path n'"
  shows "node_imports n = node_imports n'"
proof -
  let ?xs = "rglob glob_all [] (tree ws)"
  from n obtain rel f k where e: "(rel, File f) \<in> set ?xs" and m: "n = make_node lib k rel f"
    using walked_made [of n lib "root ws" ?xs] by (auto simp: analyze_walked)
  from n' obtain rel' f' k' where e': "(rel', File f') \<in> set ?xs"
    and m': "n' = make_node lib k' rel' f'"
    using walked_made [of n' lib "root ws" ?xs] by (auto simp: analyze_walked)
  from rglob_lookup [OF wf e] have r: "rel \<noteq> []" "lookup (tree ws) rel = Some (File f)"
    "\<forall>s\<in>set rel. CHR ''/'' \<notin> set s" by auto
  from rglob_lookup [OF wf e'] have r': "rel' \<noteq> []" "lookup (tree ws) rel' = Some (File f')"
    "\<forall>s\<in>set rel'. CHR ''/'' \<notin> set s" by auto
  from p m m' have "join ''/'' rel = join ''/'' rel'" by (simp add: node_path_made)
  with r r' have "rel = rel'" by (intro join_slash_inj) auto
  with r(2) r'(2) have "f = f'" by simp
  with \<open>rel = rel'\<close> m m' show ?thesis using imports_made by simp
qed

text \<open>
  C6: the keys of the dependency map are exactly the paths of the file nodes whose import
  list is not empty, hence paths of file nodes, each key once; every value is the import
  list of a file node with that path; and in a tree as a file system holds it (names of a
  directory distinct, no slash in a name) every file node with imports is mapped to its
  own import list.
\<close>

theorem dependency_map_from_file_nodes:
  "set (map fst (snd (analyze_file_structure lib ws)))
     = {node_path n |n. n \<in> set (fst (analyze_file_structure lib ws)) \<and> node_imports n \<noteq> []} \<and>
   set (map fst (snd (analyze_file_structure lib ws)))
     \<subseteq> node_path ` set (fst (analyze_file_structure lib ws)) \<and>
   distinct (map fst (snd (analyze_file_structure lib ws))) \<and>
   (\<forall>k v. map_of (snd (analyze_file_structure lib ws)) k = Some v \<longrightarrow>
      (\<exists>n\<in>set (fst (analyze_file_structure lib ws)). node_path n = k \<and> node_imports n = v)) \<and>
   (well_formed (tree ws) \<longrightarrow>
      (\<forall>n\<in>set (fst (analyze_file_structure lib ws)). node_imports n \<noteq> [] \<longrightarrow>
         map_of (snd (analyze_file_structure lib ws)) (node_path n) = Some (node_imports n)))"
proof (intro conjI allI impI ballI)
  let ?xs = "rglob glob_all [] (tree ws)"
  show keys: "set (map fst (snd (analyze_file_structure lib ws)))
     = {node_path n |n. n \<in> set (fst (analyze_file_structure lib ws)) \<and> node_imports n \<noteq> []}"
    using walked_keys [of lib "root ws" ?xs] by (simp add: analyze_walked)
  then show "set (map fst (snd (analyze_file_structure lib ws)))
     \<subseteq> node_path ` set (fst (analyze_file_structure lib ws))" by blast
  show "distinct (map fst (snd (analyze_file_structure lib ws)))"
    by (simp add: analyze_walked walked_distinct)
  {
    fix k v
    assume "map_of (snd (analyze_file_structure lib ws)) k = Some v"
    then show "\<exists>n\<in>set (fst (analyze_file_structure lib ws)). node_path n = k \<and> node_imports n = v"
      using walked_values [of lib "root ws" ?xs k v] by (simp add: analyze_walked)
  }
  {
    fix n
    assume wf: "well_formed (tree ws)"
      and n: "n \<in> set (fst (analyze_file_structure lib ws))"
      and ne: "node_imports n \<noteq> []"
    from n ne keys have "node_path n \<in> set (map fst (snd (analyze_file_structure lib ws)))"
      by blast
    then obtain v where v: "map_of (snd (analyze_file_structure lib ws)) (node_path n) = Some v"
      by (metis map_of_eq_None_iff not_Some_eq set_map)
    from walked_values [of lib "root ws" ?xs "node_path n" v] v
    obtain n' where "n' \<in> set (fst (analyze_file_structure lib ws))"
      and "node_path n' = node_path n" and "node_imports n' = v"
      by (auto simp: analyze_walked)
    with path_decides_imports [OF wf n, of n'] v
    show "map_of (snd (analyze_file_structure lib ws)) (node_path n) = Some (node_imports n)"
      by simp
  }
qed


theorem dependency_map_from_file_nodes_witness:
  "well_formed (tree ws_go) \<and>
   \<lparr>node_id = ''file-1'', node_name = ''main.py'', node_path = ''main.py'',
     node_type = ''.py'', node_imports = [''os'', ''foo''], node_size = 29\<rparr>
     \<in> set (fst (analyze_file_structure example_library ws_go)) \<and>
   map_of (snd (analyze_file_structure example_library ws_go)) ''main.py'' = Some [''os'', ''foo'']"
proof -
  let ?n = "\<lparr>node_id = ''file-1'', node_name = ''main.py'', node_path = ''main.py'',
     node_type = ''.py'', node_imports = [''os'', ''foo''], node_size = 29\<rparr>"
  have wf: "well_formed (tree ws_go)" by (simp add: ws_go_def)
  have mem: "?n \<in> set (fst (analyze_file_structure example_library ws_go))"
    by (simp add: go_walk)
  have ne: "node_imports ?n \<noteq> []" by simp
  from dependency_map_from_file_nodes [of example_library ws_go]
  have "well_formed (tree ws_go) \<longrightarrow>
      (\<forall>n\<in>set (fst (analyze_file_structure example_library ws_go)). node_imports n \<noteq> [] \<longrightarrow>
         map_of (snd (analyze_file_structure example_library ws_go)) (node_path n)
           = Some (node_imports n))" by blast
  with wf mem ne
  have "map_of (snd (analyze_file_structure example_library ws_go)) (node_path ?n)
          = Some (node_imports ?n)" by blast
  with wf mem show ?thesis by simp
qed

lemma is_hidden_append: "is_hidden (a @ b) = (is_hidden a \<or> is_hidden b)"
  by (simp add: is_hidden_def)

lemma is_ignored_append: "is_ignored (a @ b) = (is_ignored a \<or> is_ignored b)"
  by (auto simp: is_ignored_def skip_names_def)

lemma clean_root_profile:
  assumes "\<not> is_hidden rt" and "\<not> is_ignored rt"
    and "ast_parse lib main_py_text = Some main_py_tree"
  shows "detect_framework lib (ws_minimal rt) = ''FastAPI'' \<and>
         find_entry_points lib (ws_minimal rt) = [''main.py''] \<and>
         map node_path (fst (analyze_file_structure lib (ws_minimal rt)))
           = [''requirements.txt'', ''main.py''] \<and>
         snd (analyze_file_structure lib (ws_minimal rt)) = [(''main.py'', [''os'', ''foo''])]"
proof -
  have d: "detect_framework lib (ws_minimal rt) = ''FastAPI''"
    by (simp add: ws_minimal_def minimal_tree_def eval_fs eval_detect)
  have e: "find_entry_points lib (ws_minimal rt) = [''main.py'']"
    by (simp add: ws_minimal_def minimal_tree_def eval_fs find_entry_points_def
        root_loop_def scripts_block_def src_loop_def common_entries_def)
  have h: "\<not> is_hidden (rt @ [''requirements.txt''])" "\<not> is_hidden (rt @ [''main.py''])"
    using assms(1) by (simp_all add: is_hidden_append) (simp_all add: is_hidden_def startswith_def)
  have i: "\<not> is_ignored (rt @ [''requirements.txt''])" "\<not> is_ignored (rt @ [''main.py''])"
    using assms(2) by (simp_all add: is_ignored_append) (simp_all add: is_ignored_def skip_names_def)
  have py: "parse_imports_python lib (text_file main_py_text) = [''os'', ''foo'']"
    by (simp add: parse_imports_python_def text_file_def assms(3) main_py_tree_def ast_walk_def)
  have a: "analyze_file_structure lib (ws_minimal rt) =
      ([make_node lib 0 [''requirements.txt''] (text_file ''fastapi==0.95.0''),
        make_node lib 1 [''main.py''] (text_file main_py_text)],
       [(''main.py'', [''os'', ''foo''])])"
    using h i py
    by (simp add: ws_minimal_def minimal_tree_def analyze_file_structure_def rglob_def
        select_children_def glob_all_def make_node_def Let_def path_name_def suffix_def
        last_segment_def extract_imports_def code_extensions_def)
  from d e a show ?thesis by (simp add: make_node_def Let_def)
qed

text \<open>
  C1: the scenario of the specification, a repository with only \<open>requirements.txt\<close>
  (\<open>fastapi==0.95.0\<close>) and \<open>main.py\<close> (\<open>import os\<close>, \<open>from foo import bar\<close>). Checked out
  below a directory whose name starts with a dot, the framework and the entry points are
  as expected, but the walk skips both files, because lines 219 and 222 test the parts
  of the whole path, \<open>repo_path\<close> included: the file list and the dependency map are empty.
\<close>

theorem hidden_root_skips_every_file:
  "detect_framework example_library (ws_minimal hidden_root) = ''FastAPI'' \<and>
   find_entry_points example_library (ws_minimal hidden_root) = [''main.py''] \<and>
   analyze_file_structure example_library (ws_minimal hidden_root) = ([], [])"
proof -
  have d: "detect_framework example_library (ws_minimal hidden_root) = ''FastAPI''"
    by (simp add: ws_minimal_def minimal_tree_def eval_fs eval_detect)
  have e: "find_entry_points example_library (ws_minimal hidden_root) = [''main.py'']"
    by (simp add: ws_minimal_def minimal_tree_def eval_fs find_entry_points_def
        root_loop_def scripts_block_def src_loop_def common_entries_def)
  have a: "analyze_file_structure example_library (ws_minimal hidden_root) = ([], [])"
    by (simp add: ws_minimal_def minimal_tree_def hidden_root_def eval_walk)
  from d e a show ?thesis by simp
qed

end
